theory Spec2Isabelle
  imports Main
begin

section \<open>Characters and strings of the C++ sources\<close>

text \<open>
  The compiler works on \<open>std::string\<close>, a byte sequence; it is modelled as \<open>string\<close>
  (\<open>char list\<close>). The characters the sources name by escape sequences:
\<close>

definition ch_newline :: char where "ch_newline = CHR 0x0A"
definition ch_tab :: char where "ch_tab = CHR 0x09"
definition ch_return :: char where "ch_return = CHR 0x0D"
definition ch_backslash :: char where "ch_backslash = CHR 0x5C"
definition ch_dquote :: char where "ch_dquote = CHR 0x22"
definition ch_squote :: char where "ch_squote = CHR 0x27"

lemmas ch_defs = ch_newline_def ch_tab_def ch_return_def ch_backslash_def ch_dquote_def
  ch_squote_def

text \<open>\<open>std::to_string\<close> on a non-negative or negative \<open>int\<close>: decimal digits.\<close>

fun string_of_nat :: "nat \<Rightarrow> string" where
  "string_of_nat n =
     (if n < 10 then [''0123456789'' ! n]
      else string_of_nat (n div 10) @ [''0123456789'' ! (n mod 10)])"

declare string_of_nat.simps [simp del]

definition to_string :: "int \<Rightarrow> string" where
  "to_string i = (if i < 0 then CHR ''-'' # string_of_nat (nat (- i)) else string_of_nat (nat i))"

section \<open>Lexer (lexer.cpp)\<close>

subsection \<open>decode_string_literal\<close>

text \<open>
  The loop over \<open>content\<close> with index \<open>i\<close>: a backslash that has a successor consumes
  two characters (\<open>++i\<close> in the body and in the loop header), anything else one.
  Every case of the \<open>switch\<close> is kept, although the last three push \<open>next\<close> itself.
\<close>

definition decode_escape :: "char \<Rightarrow> char" where
  "decode_escape next =
     (if next = CHR ''n'' then ch_newline
      else if next = CHR ''t'' then ch_tab
      else if next = CHR ''r'' then ch_return
      else if next = ch_backslash then ch_backslash
      else if next = ch_dquote then ch_dquote
      else if next = ch_squote then ch_squote
      else next)"

fun decode_content :: "string \<Rightarrow> string" where
  "decode_content [] = []"
| "decode_content [c] = [c]"
| "decode_content (c # next # rest) =
     (if c = ch_backslash then decode_escape next # decode_content rest
      else c # decode_content (next # rest))"

definition decode_string_literal :: "string \<Rightarrow> string" where
  "decode_string_literal raw =
     (if length raw < 2 then raw
      else decode_content (take (length raw - 2) (drop 1 raw)))"

subsection \<open>Tokens and failures\<close>

text \<open>
  \<open>struct Token { std::string type; std::string value; int line; int column; }\<close>.
  The fields carry the prefix \<open>tok_\<close>, since \<open>type\<close> and \<open>value\<close> are reserved words here.
\<close>

record token =
  tok_type :: string
  tok_value :: string
  tok_line :: int
  tok_column :: int

definition mk_token :: "string \<Rightarrow> string \<Rightarrow> int \<Rightarrow> int \<Rightarrow> token" where
  "mk_token k v l c = \<lparr>tok_type = k, tok_value = v, tok_line = l, tok_column = c\<rparr>"

text \<open>
  Every failure of the C++ code is a \<open>std::exception\<close> with a message
  (\<open>std::runtime_error\<close>, or what \<open>std::stod\<close> throws). Two more values exist only in
  the model: a read of \<open>tokens_[i]\<close> past the end of the vector, which C++ leaves
  undefined, and the exhaustion of the recursion budget of the parser model.
\<close>

datatype error = Exception string | IndexOutOfBounds | OutOfFuel

subsection \<open>Sequencing of steps that may throw\<close>

definition bind :: "error + 'a \<Rightarrow> ('a \<Rightarrow> error + 'b) \<Rightarrow> error + 'b" where
  "bind m f = (case m of Inl e \<Rightarrow> Inl e | Inr x \<Rightarrow> f x)"

lemma bind_simps [simp]:
  "bind (Inl e) f = Inl e"
  "bind (Inr x) f = f x"
  by (simp_all add: bind_def)

lemma bind_cong [fundef_cong]:
  "m = m' \<Longrightarrow> (\<And>x. m' = Inr x \<Longrightarrow> f x = f' x) \<Longrightarrow> bind m f = bind m' f'"
  by (cases m') (simp_all add: bind_def)

subsection \<open>The token patterns\<close>

text \<open>
  Each \<open>std::regex\<close> of \<open>token_patterns()\<close> is used with \<open>match_continuous\<close>: it must
  match a prefix of the remaining text. A pattern is modelled by the function that
  returns the matched prefix (\<open>match.str()\<close>), or \<open>None\<close>.
\<close>

definition is_digit :: "char \<Rightarrow> bool" where
  "is_digit c = (c \<in> set ''0123456789'')"

definition is_name_start :: "char \<Rightarrow> bool" where
  "is_name_start c = (c \<in> set ''ABCDEFGHIJKLMNOPQRSTUVWXYZabcdefghijklmnopqrstuvwxyz_'')"

definition is_name_char :: "char \<Rightarrow> bool" where
  "is_name_char c = (is_name_start c \<or> is_digit c)"

text \<open>\<open>\d+(?:\.\d+)?\<close>\<close>

definition rx_number :: "string \<Rightarrow> string option" where
  "rx_number s =
     (let ds = takeWhile is_digit s in
      if ds = [] then None
      else (case drop (length ds) s of
              c # r \<Rightarrow>
                (let fs = takeWhile is_digit r in
                 if c = CHR ''.'' \<and> fs \<noteq> [] then Some (ds @ c # fs) else Some ds)
            | [] \<Rightarrow> Some ds))"

text \<open>
  \<open>("([^"\\]|\\.)*")|('([^'\\]|\\.)*')\<close>. After the opening quote \<open>q\<close>: a character
  other than \<open>q\<close> and the backslash, or a backslash and one character that is not a line
  terminator (the ECMAScript \<open>.\<close>), repeated, then \<open>q\<close>. The two alternatives of the
  group start with different characters, so no backtracking changes the match.
\<close>

fun rx_string_body :: "char \<Rightarrow> string \<Rightarrow> string option" where
  "rx_string_body q [] = None"
| "rx_string_body q (c # cs) =
     (if c = q then Some [c]
      else if c = ch_backslash then
        (case cs of
           [] \<Rightarrow> None
         | d # ds \<Rightarrow>
             if d = ch_newline \<or> d = ch_return then None
             else map_option (\<lambda>m. c # d # m) (rx_string_body q ds))
      else map_option (\<lambda>m. c # m) (rx_string_body q cs))"

definition rx_string :: "string \<Rightarrow> string option" where
  "rx_string s =
     (case s of
        [] \<Rightarrow> None
      | q # cs \<Rightarrow>
          if q = ch_dquote \<or> q = ch_squote then map_option (\<lambda>m. q # m) (rx_string_body q cs)
          else None)"

text \<open>\<open>//[^\n]*\<close>\<close>

definition rx_comment :: "string \<Rightarrow> string option" where
  "rx_comment s =
     (if take 2 s = ''//'' then Some (''//'' @ takeWhile (\<lambda>c. c \<noteq> ch_newline) (drop 2 s))
      else None)"

text \<open>\<open>[A-Za-z_][A-Za-z0-9_]*\<close>\<close>

definition rx_name :: "string \<Rightarrow> string option" where
  "rx_name s =
     (case s of
        [] \<Rightarrow> None
      | c # cs \<Rightarrow> if is_name_start c then Some (c # takeWhile is_name_char cs) else None)"

text \<open>\<open>==|!=|<=|>=|=>|&&|\|\||[+\-*/%=<>!]\<close>: the alternatives in their order.\<close>

definition rx_op :: "string \<Rightarrow> string option" where
  "rx_op s =
     (if take 2 s \<in> set [''=='', ''!='', ''<='', ''>='', ''=>'', ''&&'', ''||''] then Some (take 2 s)
      else (case s of
              [] \<Rightarrow> None
            | c # cs \<Rightarrow> if c \<in> set ''+-*/%=<>!'' then Some [c] else None))"

text \<open>\<open>[ \t]+\<close>\<close>

definition rx_skip :: "string \<Rightarrow> string option" where
  "rx_skip s =
     (let ws = takeWhile (\<lambda>c. c = CHR '' '' \<or> c = ch_tab) s in
      if ws = [] then None else Some ws)"

text \<open>The patterns of one character: \<open>\n\<close>, and the punctuation.\<close>

definition rx_char :: "char \<Rightarrow> string \<Rightarrow> string option" where
  "rx_char x s = (case s of [] \<Rightarrow> None | c # cs \<Rightarrow> if c = x then Some [c] else None)"

type_synonym pattern = "string \<times> (string \<Rightarrow> string option)"

definition token_patterns :: "pattern list" where
  "token_patterns =
     [(''NUMBER'', rx_number),
      (''STRING'', rx_string),
      (''COMMENT'', rx_comment),
      (''NAME'', rx_name),
      (''OP'', rx_op),
      (''NEWLINE'', rx_char ch_newline),
      (''SKIP'', rx_skip),
      (''LPAREN'', rx_char CHR ''(''),
      (''RPAREN'', rx_char CHR '')''),
      (''LBRACE'', rx_char CHR ''{''),
      (''RBRACE'', rx_char CHR ''}''),
      (''LBRACKET'', rx_char CHR ''[''),
      (''RBRACKET'', rx_char CHR '']''),
      (''COMMA'', rx_char CHR '',''),
      (''COLON'', rx_char CHR '':''),
      (''DOT'', rx_char CHR ''.''),
      (''SEMICOLON'', rx_char CHR '';'')]"

text \<open>The \<open>for\<close> loop over the patterns: the first that matches gives kind and text.\<close>

fun first_match :: "pattern list \<Rightarrow> string \<Rightarrow> (string \<times> string) option" where
  "first_match [] s = None"
| "first_match ((name, rx) # ps) s =
     (case rx s of Some m \<Rightarrow> Some (name, m) | None \<Rightarrow> first_match ps s)"

subsection \<open>Keywords\<close>

definition kKeywords :: "string list" where
  "kKeywords =
     [''let'', ''fn'', ''function'', ''return'', ''if'', ''else'', ''while'',
      ''for'', ''in'', ''true'', ''false'', ''null'', ''import'', ''as'',
      ''from'', ''const'', ''export'', ''default'', ''spawn'']"

definition is_keyword :: "string \<Rightarrow> bool" where
  "is_keyword v = (v \<in> set kKeywords)"

definition toupper :: "char \<Rightarrow> char" where
  "toupper c =
     (case map_of (zip ''abcdefghijklmnopqrstuvwxyz'' ''ABCDEFGHIJKLMNOPQRSTUVWXYZ'') c of
        Some u \<Rightarrow> u
      | None \<Rightarrow> c)"

definition uppercase :: "string \<Rightarrow> string" where
  "uppercase v = map toupper v"

subsection \<open>tokenize\<close>

text \<open>\<open>std::string_view::find\<close> from position 0, and \<open>find_last_of\<close> of one character.\<close>

fun find_str :: "string \<Rightarrow> string \<Rightarrow> nat option" where
  "find_str pat [] = (if pat = [] then Some 0 else None)"
| "find_str pat (c # cs) =
     (if take (length pat) (c # cs) = pat then Some 0 else map_option Suc (find_str pat cs))"

definition find_last_of :: "char \<Rightarrow> string \<Rightarrow> nat option" where
  "find_last_of x s =
     (if x \<in> set s then Some (length s - 1 - length (takeWhile (\<lambda>c. c \<noteq> x) (rev s))) else None)"

text \<open>Every pattern matches at least one character, so the loop below advances.\<close>

lemma rx_string_body_nonempty: "rx_string_body q s = Some m \<Longrightarrow> m \<noteq> []"
  by (cases s) (auto split: if_splits list.splits)

lemma rx_nonempty:
  "rx_number s = Some m \<Longrightarrow> m \<noteq> []"
  "rx_string s = Some m \<Longrightarrow> m \<noteq> []"
  "rx_comment s = Some m \<Longrightarrow> m \<noteq> []"
  "rx_name s = Some m \<Longrightarrow> m \<noteq> []"
  "rx_op s = Some m \<Longrightarrow> m \<noteq> []"
  "rx_skip s = Some m \<Longrightarrow> m \<noteq> []"
  "rx_char x s = Some m \<Longrightarrow> m \<noteq> []"
  by (auto simp: rx_number_def rx_string_def rx_comment_def rx_name_def
      rx_op_def rx_skip_def rx_char_def Let_def
      split: option.splits list.splits if_splits)

lemma first_match_nonempty:
  "first_match token_patterns s = Some (k, m) \<Longrightarrow> m \<noteq> []"
  unfolding token_patterns_def first_match.simps
  by (simp split: option.splits) (auto dest: rx_nonempty)

text \<open>
  The \<open>while (index < source.size())\<close> loop. Its state is the text from \<open>index\<close> on
  (\<open>remaining\<close>), \<open>line\<close>, \<open>column\<close> and the tokens pushed so far. \<open>int\<close> is modelled
  by \<open>int\<close>: a line or column beyond \<open>2^31\<close> needs a source of that size.
\<close>

function tokenize_from :: "string \<Rightarrow> int \<Rightarrow> int \<Rightarrow> token list \<Rightarrow> error + token list" where
  "tokenize_from remaining line column tokens =
     (if remaining = [] then Inr (tokens @ [mk_token ''EOF'' '''' line column])
      else if take 2 remaining = ''/*'' then
        (case find_str ''*/'' remaining of
           None \<Rightarrow> Inl (Exception (''Unterminated block comment at line '' @ to_string line))
         | Some e \<Rightarrow>
             (let v = take (e + 2) remaining;
                  newline_count = int (count_list v ch_newline);
                  line' = line + newline_count;
                  column' =
                    (if newline_count > 0 then
                       (case find_last_of ch_newline v of
                          Some pos \<Rightarrow> int (length v - pos)
                        | None \<Rightarrow> column)
                     else column + int (length v))
              in tokenize_from (drop (length v) remaining) line' column' tokens))
      else
        (case first_match token_patterns remaining of
           None \<Rightarrow>
             Inl (Exception (''Unexpected character '' @ [ch_squote] @ [hd remaining] @ [ch_squote]
                    @ '' at line '' @ to_string line @ '' column '' @ to_string column))
         | Some (kind, v) \<Rightarrow>
             if kind = ''NEWLINE'' then
               tokenize_from (drop (length v) remaining) (line + 1) 1
                 (tokens @ [mk_token kind v line column])
             else if kind = ''SKIP'' \<or> kind = ''COMMENT'' then
               tokenize_from (drop (length v) remaining) line (column + int (length v)) tokens
             else
               (let kind' = (if kind = ''NAME'' \<and> is_keyword v then uppercase v else kind);
                    v' = (if kind' = ''STRING'' then decode_string_literal v else v)
                in tokenize_from (drop (length v) remaining) line (column + int (length v))
                     (tokens @ [mk_token kind' v' line column]))))"
  by pat_completeness auto
termination
proof (relation "measure (\<lambda>(r, l, c, t). length r)")
  show "wf (measure (\<lambda>(r, l, c, t). length r))" by simp
qed (auto dest: first_match_nonempty)

declare tokenize_from.simps [simp del]

definition tokenize :: "string \<Rightarrow> error + token list" where
  "tokenize source = tokenize_from source 1 1 []"

section \<open>Abstract syntax (ast.hpp)\<close>

text \<open>
  The class hierarchy under \<open>Node\<close> becomes two datatypes: \<open>expr\<close> for the classes
  derived from \<open>Expression\<close>, \<open>node\<close> for what a \<open>NodePtr\<close> of a body can hold. The \<open>kind\<close>
  field is the constructor. An expression held by a \<open>NodePtr\<close> (an expression
  statement) is \<open>Expr e\<close>. \<open>String\<close>, \<open>Let\<close> and \<open>If\<close> are taken in HOL and carry a suffix.

  \<open>Number\<close> holds a \<open>double\<close>. Floating point is not modelled: the type \<open>'d\<close> of
  doubles is a parameter, with \<open>std::stod\<close> (parser) and the \<open>operator<<\<close> of a stream
  on a double (generators) as parameters of the functions that call them.
\<close>

datatype 'd expr =
    Name string
  | Number 'd
  | StringLit string
  | Boolean bool
  | Null
  | BinaryOp "'d expr" string "'d expr"
  | UnaryOp string "'d expr"
  | Call "'d expr" "'d expr list"
  | Attribute "'d expr" string
  | ListLiteral "'d expr list"
  | DictLiteral "('d expr \<times> 'd expr) list"

text \<open>
  \<open>ImportFrom module names default_name namespace_name\<close>, \<open>Import module alias\<close>,
  \<open>LetStmt name value mutable_flag exported is_default\<close>, \<open>Assign target value\<close>,
  \<open>FunctionDef name params body exported is_default\<close>, \<open>ExportNames names source\<close>,
  \<open>IfStmt test body orelse\<close>, \<open>While test body\<close>, \<open>For target iterator body\<close>,
  \<open>Spawn call\<close>.
\<close>

datatype 'd node =
    Module "'d node list"
  | ImportFrom string "(string \<times> string) list" "string option" "string option"
  | Import string "string option"
  | LetStmt string "'d expr" bool bool bool
  | Assign "'d expr" "'d expr"
  | FunctionDef string "string list" "'d node list" bool bool
  | ExportNames "(string \<times> string) list" "string option"
  | ExportDefault "'d expr"
  | Return "'d expr option"
  | IfStmt "'d expr" "'d node list" "'d node list"
  | While "'d expr" "'d node list"
  | For string "'d expr" "'d node list"
  | Spawn "'d expr"
  | Expr "'d expr"

fun is_Call :: "'d expr \<Rightarrow> bool" where
  "is_Call (Call f args) = True"
| "is_Call e = False"

fun is_Return :: "'d node \<Rightarrow> bool" where
  "is_Return (Return v) = True"
| "is_Return n = False"

section \<open>Parser (parser.cpp)\<close>

text \<open>
  The parser's state is the index \<open>index_\<close> into the token vector. The model carries
  the tokens from \<open>index_\<close> on: \<open>current()\<close> is the head of that list, \<open>peek()\<close> its second
  element, \<open>++index_\<close> drops the head. On the empty list the C++ code reads past the
  end of the vector: \<open>IndexOutOfBounds\<close>.

  Recursion and loops take a budget \<open>n\<close>: a loop passes \<open>n - 1\<close> to its next iteration,
  and with budget 0 the result is \<open>OutOfFuel\<close>. The recursion of the C++ functions
  through \<open>parse_expression\<close> and through \<open>parse_block\<close> is tied in these two
  functions: the others take the function they call back as the argument \<open>pe\<close>
  (\<open>parse_expression\<close>) or \<open>pb\<close> (\<open>parse_block\<close>). \<open>parse\<close> starts with a budget
  larger than the number of tokens, which is shown never to run out.
\<close>

type_synonym 'a parse_result = "error + ('a \<times> token list)"

definition expected_error :: "string \<Rightarrow> token \<Rightarrow> error" where
  "expected_error expected tok =
     Exception (''Expected '' @ expected @ '' but got '' @ tok_type tok @ '' at line ''
                @ to_string (tok_line tok))"

text \<open>\<open>consume(expected)\<close>; \<open>consume()\<close> is \<open>consume []\<close>.\<close>

definition consume :: "string \<Rightarrow> token list \<Rightarrow> token parse_result" where
  "consume expected ts =
     (case ts of
        [] \<Rightarrow> Inl IndexOutOfBounds
      | tok # rest \<Rightarrow>
          if expected \<noteq> [] \<and> tok_type tok \<noteq> expected then Inl (expected_error expected tok)
          else Inr (tok, rest))"

text \<open>\<open>match(type)\<close>: whether the current token was of that type, and was consumed.\<close>

definition match :: "string \<Rightarrow> token list \<Rightarrow> bool parse_result" where
  "match ty ts =
     (case ts of
        [] \<Rightarrow> Inl IndexOutOfBounds
      | tok # rest \<Rightarrow> if tok_type tok = ty then Inr (True, rest) else Inr (False, ts))"

text \<open>\<open>current().type == ty\<close>, and \<open>peek().type == ty\<close>\<close>

definition current_is :: "string \<Rightarrow> token list \<Rightarrow> error + bool" where
  "current_is ty ts = (case ts of [] \<Rightarrow> Inl IndexOutOfBounds | tok # rest \<Rightarrow> Inr (tok_type tok = ty))"

definition peek_is :: "string \<Rightarrow> token list \<Rightarrow> error + bool" where
  "peek_is ty ts =
     (case ts of
        tok # next # rest \<Rightarrow> Inr (tok_type next = ty)
      | _ \<Rightarrow> Inl IndexOutOfBounds)"

text \<open>\<open>current().type == "OP" && current().value\<close> is one of \<open>ops\<close>\<close>

definition current_is_op :: "string list \<Rightarrow> token list \<Rightarrow> error + bool" where
  "current_is_op ops ts =
     (case ts of
        [] \<Rightarrow> Inl IndexOutOfBounds
      | tok # rest \<Rightarrow> Inr (tok_type tok = ''OP'' \<and> tok_value tok \<in> set ops))"

subsection \<open>Expressions\<close>

text \<open>
  \<open>expression_list\<close> is the loop \<open>while (true) { push_back(parse_expression()); if
  (!match("COMMA")) break; }\<close> of a call's arguments and of a list literal; \<open>dict_pairs\<close>
  the one of a dict literal.
\<close>

fun expression_list ::
  "(token list \<Rightarrow> 'd expr parse_result) \<Rightarrow> nat \<Rightarrow> 'd expr list \<Rightarrow> token list
    \<Rightarrow> 'd expr list parse_result" where
  "expression_list pe 0 acc ts = Inl OutOfFuel"
| "expression_list pe (Suc n) acc ts =
     bind (pe ts) (\<lambda>(e, ts1).
     bind (match ''COMMA'' ts1) (\<lambda>(comma, ts2).
     if comma then expression_list pe n (acc @ [e]) ts2 else Inr (acc @ [e], ts2)))"

fun dict_pairs ::
  "(token list \<Rightarrow> 'd expr parse_result) \<Rightarrow> nat \<Rightarrow> ('d expr \<times> 'd expr) list \<Rightarrow> token list
    \<Rightarrow> ('d expr \<times> 'd expr) list parse_result" where
  "dict_pairs pe 0 acc ts = Inl OutOfFuel"
| "dict_pairs pe (Suc n) acc ts =
     bind (pe ts) (\<lambda>(k, ts1).
     bind (consume ''COLON'' ts1) (\<lambda>(tok, ts2).
     bind (pe ts2) (\<lambda>(v, ts3).
     bind (match ''COMMA'' ts3) (\<lambda>(comma, ts4).
     if comma then dict_pairs pe n (acc @ [(k, v)]) ts4 else Inr (acc @ [(k, v)], ts4)))))"

text \<open>
  \<open>parse_primary\<close>. \<open>stod\<close> stands for \<open>std::stod\<close>, which throws (with the message
  \<open>stod\<close>) where it gives \<open>None\<close>.
\<close>

definition parse_primary ::
  "(string \<Rightarrow> 'd option) \<Rightarrow> (token list \<Rightarrow> 'd expr parse_result) \<Rightarrow> nat \<Rightarrow> token list
    \<Rightarrow> 'd expr parse_result" where
  "parse_primary stod pe n ts =
     (case ts of
        [] \<Rightarrow> Inl IndexOutOfBounds
      | tok # ts1 \<Rightarrow>
          if tok_type tok = ''NUMBER'' then
            (case stod (tok_value tok) of
               None \<Rightarrow> Inl (Exception ''stod'')
             | Some d \<Rightarrow> Inr (Number d, ts1))
          else if tok_type tok = ''STRING'' then Inr (StringLit (tok_value tok), ts1)
          else if tok_type tok = ''TRUE'' then Inr (Boolean True, ts1)
          else if tok_type tok = ''FALSE'' then Inr (Boolean False, ts1)
          else if tok_type tok = ''NULL'' then Inr (Null, ts1)
          else if tok_type tok = ''NAME'' then Inr (Name (tok_value tok), ts1)
          else if tok_type tok = ''LPAREN'' then
            bind (pe ts1) (\<lambda>(expr, ts2).
            bind (consume ''RPAREN'' ts2) (\<lambda>(t, ts3). Inr (expr, ts3)))
          else if tok_type tok = ''LBRACKET'' then
            bind (current_is ''RBRACKET'' ts1) (\<lambda>empty.
            bind (if \<not> empty then expression_list pe n [] ts1 else Inr ([], ts1))
              (\<lambda>(elements, ts2).
            bind (consume ''RBRACKET'' ts2) (\<lambda>(t, ts3). Inr (ListLiteral elements, ts3))))
          else if tok_type tok = ''LBRACE'' then
            bind (current_is ''RBRACE'' ts1) (\<lambda>empty.
            bind (if \<not> empty then dict_pairs pe n [] ts1 else Inr ([], ts1)) (\<lambda>(pairs, ts2).
            bind (consume ''RBRACE'' ts2) (\<lambda>(t, ts3). Inr (DictLiteral pairs, ts3))))
          else Inl (Exception (''Unexpected token '' @ tok_type tok @ '' at line ''
                                @ to_string (tok_line tok))))"

text \<open>\<open>parse_call_expression\<close>: \<open>call_loop\<close> is its \<open>while (true)\<close> loop.\<close>

fun call_loop ::
  "(token list \<Rightarrow> 'd expr parse_result) \<Rightarrow> nat \<Rightarrow> 'd expr \<Rightarrow> token list \<Rightarrow> 'd expr parse_result"
  where
  "call_loop pe 0 expr ts = Inl OutOfFuel"
| "call_loop pe (Suc n) expr ts =
     bind (match ''LPAREN'' ts) (\<lambda>(lparen, ts1).
     if lparen then
       bind (current_is ''RPAREN'' ts1) (\<lambda>empty.
       bind (if \<not> empty then expression_list pe n [] ts1 else Inr ([], ts1)) (\<lambda>(args, ts2).
       bind (consume ''RPAREN'' ts2) (\<lambda>(tok, ts3).
       call_loop pe n (Call expr args) ts3)))
     else
       bind (match ''DOT'' ts1) (\<lambda>(dot, ts2).
       if dot then
         bind (consume ''NAME'' ts2) (\<lambda>(tok, ts3).
         call_loop pe n (Attribute expr (tok_value tok)) ts3)
       else Inr (expr, ts2)))"

definition parse_call_expression ::
  "(string \<Rightarrow> 'd option) \<Rightarrow> (token list \<Rightarrow> 'd expr parse_result) \<Rightarrow> nat \<Rightarrow> token list
    \<Rightarrow> 'd expr parse_result" where
  "parse_call_expression stod pe n ts =
     bind (parse_primary stod pe n ts) (\<lambda>(expr, ts1). call_loop pe n expr ts1)"

fun parse_unary ::
  "(string \<Rightarrow> 'd option) \<Rightarrow> (token list \<Rightarrow> 'd expr parse_result) \<Rightarrow> nat \<Rightarrow> token list
    \<Rightarrow> 'd expr parse_result" where
  "parse_unary stod pe 0 ts = Inl OutOfFuel"
| "parse_unary stod pe (Suc n) ts =
     bind (current_is_op [''-'', ''!''] ts) (\<lambda>prefix.
     if prefix then
       bind (consume ''OP'' ts) (\<lambda>(tok, ts1).
       bind (parse_unary stod pe n ts1) (\<lambda>(operand, ts2).
       Inr (UnaryOp (tok_value tok) operand, ts2)))
     else parse_call_expression stod pe (Suc n) ts)"

text \<open>
  The binary levels. Each \<open>parse_x\<close> parses one operand and enters its \<open>while\<close> loop
  \<open>x_loop\<close>, whose variable \<open>expr\<close> is the second argument.
\<close>

fun factor_loop ::
  "(string \<Rightarrow> 'd option) \<Rightarrow> (token list \<Rightarrow> 'd expr parse_result) \<Rightarrow> nat \<Rightarrow> 'd expr \<Rightarrow> token list
    \<Rightarrow> 'd expr parse_result" where
  "factor_loop stod pe 0 expr ts = Inl OutOfFuel"
| "factor_loop stod pe (Suc n) expr ts =
     bind (current_is_op [''*'', ''/'', ''%''] ts) (\<lambda>more.
     if more then
       bind (consume ''OP'' ts) (\<lambda>(tok, ts1).
       bind (parse_unary stod pe n ts1) (\<lambda>(right, ts2).
       factor_loop stod pe n (BinaryOp expr (tok_value tok) right) ts2))
     else Inr (expr, ts))"

definition parse_factor ::
  "(string \<Rightarrow> 'd option) \<Rightarrow> (token list \<Rightarrow> 'd expr parse_result) \<Rightarrow> nat \<Rightarrow> token list
    \<Rightarrow> 'd expr parse_result" where
  "parse_factor stod pe n ts =
     bind (parse_unary stod pe n ts) (\<lambda>(expr, ts1). factor_loop stod pe n expr ts1)"

fun term_loop ::
  "(string \<Rightarrow> 'd option) \<Rightarrow> (token list \<Rightarrow> 'd expr parse_result) \<Rightarrow> nat \<Rightarrow> 'd expr \<Rightarrow> token list
    \<Rightarrow> 'd expr parse_result" where
  "term_loop stod pe 0 expr ts = Inl OutOfFuel"
| "term_loop stod pe (Suc n) expr ts =
     bind (current_is_op [''+'', ''-''] ts) (\<lambda>more.
     if more then
       bind (consume ''OP'' ts) (\<lambda>(tok, ts1).
       bind (parse_factor stod pe n ts1) (\<lambda>(right, ts2).
       term_loop stod pe n (BinaryOp expr (tok_value tok) right) ts2))
     else Inr (expr, ts))"

definition parse_term ::
  "(string \<Rightarrow> 'd option) \<Rightarrow> (token list \<Rightarrow> 'd expr parse_result) \<Rightarrow> nat \<Rightarrow> token list
    \<Rightarrow> 'd expr parse_result" where
  "parse_term stod pe n ts =
     bind (parse_factor stod pe n ts) (\<lambda>(expr, ts1). term_loop stod pe n expr ts1)"

fun comparison_loop ::
  "(string \<Rightarrow> 'd option) \<Rightarrow> (token list \<Rightarrow> 'd expr parse_result) \<Rightarrow> nat \<Rightarrow> 'd expr \<Rightarrow> token list
    \<Rightarrow> 'd expr parse_result" where
  "comparison_loop stod pe 0 expr ts = Inl OutOfFuel"
| "comparison_loop stod pe (Suc n) expr ts =
     bind (current_is_op [''<'', ''>'', ''<='', ''>=''] ts) (\<lambda>more.
     if more then
       bind (consume ''OP'' ts) (\<lambda>(tok, ts1).
       bind (parse_term stod pe n ts1) (\<lambda>(right, ts2).
       comparison_loop stod pe n (BinaryOp expr (tok_value tok) right) ts2))
     else Inr (expr, ts))"

definition parse_comparison ::
  "(string \<Rightarrow> 'd option) \<Rightarrow> (token list \<Rightarrow> 'd expr parse_result) \<Rightarrow> nat \<Rightarrow> token list
    \<Rightarrow> 'd expr parse_result" where
  "parse_comparison stod pe n ts =
     bind (parse_term stod pe n ts) (\<lambda>(expr, ts1). comparison_loop stod pe n expr ts1)"

fun equality_loop ::
  "(string \<Rightarrow> 'd option) \<Rightarrow> (token list \<Rightarrow> 'd expr parse_result) \<Rightarrow> nat \<Rightarrow> 'd expr \<Rightarrow> token list
    \<Rightarrow> 'd expr parse_result" where
  "equality_loop stod pe 0 expr ts = Inl OutOfFuel"
| "equality_loop stod pe (Suc n) expr ts =
     bind (current_is_op [''=='', ''!=''] ts) (\<lambda>more.
     if more then
       bind (consume ''OP'' ts) (\<lambda>(tok, ts1).
       bind (parse_comparison stod pe n ts1) (\<lambda>(right, ts2).
       equality_loop stod pe n (BinaryOp expr (tok_value tok) right) ts2))
     else Inr (expr, ts))"

definition parse_equality ::
  "(string \<Rightarrow> 'd option) \<Rightarrow> (token list \<Rightarrow> 'd expr parse_result) \<Rightarrow> nat \<Rightarrow> token list
    \<Rightarrow> 'd expr parse_result" where
  "parse_equality stod pe n ts =
     bind (parse_comparison stod pe n ts) (\<lambda>(expr, ts1). equality_loop stod pe n expr ts1)"

fun and_loop ::
  "(string \<Rightarrow> 'd option) \<Rightarrow> (token list \<Rightarrow> 'd expr parse_result) \<Rightarrow> nat \<Rightarrow> 'd expr \<Rightarrow> token list
    \<Rightarrow> 'd expr parse_result" where
  "and_loop stod pe 0 expr ts = Inl OutOfFuel"
| "and_loop stod pe (Suc n) expr ts =
     bind (current_is_op [''&&''] ts) (\<lambda>more.
     if more then
       bind (consume ''OP'' ts) (\<lambda>(tok, ts1).
       bind (parse_equality stod pe n ts1) (\<lambda>(right, ts2).
       and_loop stod pe n (BinaryOp expr (tok_value tok) right) ts2))
     else Inr (expr, ts))"

definition parse_and ::
  "(string \<Rightarrow> 'd option) \<Rightarrow> (token list \<Rightarrow> 'd expr parse_result) \<Rightarrow> nat \<Rightarrow> token list
    \<Rightarrow> 'd expr parse_result" where
  "parse_and stod pe n ts =
     bind (parse_equality stod pe n ts) (\<lambda>(expr, ts1). and_loop stod pe n expr ts1)"

fun or_loop ::
  "(string \<Rightarrow> 'd option) \<Rightarrow> (token list \<Rightarrow> 'd expr parse_result) \<Rightarrow> nat \<Rightarrow> 'd expr \<Rightarrow> token list
    \<Rightarrow> 'd expr parse_result" where
  "or_loop stod pe 0 expr ts = Inl OutOfFuel"
| "or_loop stod pe (Suc n) expr ts =
     bind (current_is_op [''||''] ts) (\<lambda>more.
     if more then
       bind (consume ''OP'' ts) (\<lambda>(tok, ts1).
       bind (parse_and stod pe n ts1) (\<lambda>(right, ts2).
       or_loop stod pe n (BinaryOp expr (tok_value tok) right) ts2))
     else Inr (expr, ts))"

definition parse_or ::
  "(string \<Rightarrow> 'd option) \<Rightarrow> (token list \<Rightarrow> 'd expr parse_result) \<Rightarrow> nat \<Rightarrow> token list
    \<Rightarrow> 'd expr parse_result" where
  "parse_or stod pe n ts =
     bind (parse_and stod pe n ts) (\<lambda>(expr, ts1). or_loop stod pe n expr ts1)"

text \<open>\<open>parse_expression() { return parse_or(); }\<close>, where the recursion is tied.\<close>

primrec parse_expression ::
  "(string \<Rightarrow> 'd option) \<Rightarrow> nat \<Rightarrow> token list \<Rightarrow> 'd expr parse_result" where
  "parse_expression stod 0 = (\<lambda>ts. Inl OutOfFuel)"
| "parse_expression stod (Suc n) = parse_or stod (parse_expression stod n) (Suc n)"

subsection \<open>Statements\<close>

fun is_Name :: "'d expr \<Rightarrow> bool" where
  "is_Name (Name ident) = True"
| "is_Name e = False"

fun is_Attribute :: "'d expr \<Rightarrow> bool" where
  "is_Attribute (Attribute e attr) = True"
| "is_Attribute e = False"

text \<open>\<open>optional_newline\<close>: the loop consumes one token per iteration.\<close>

fun optional_newline :: "token list \<Rightarrow> error + token list" where
  "optional_newline [] = Inl IndexOutOfBounds"
| "optional_newline (tok # rest) =
     (if tok_type tok = ''NEWLINE'' \<or> tok_type tok = ''SEMICOLON'' then optional_newline rest
      else Inr (tok # rest))"

text \<open>The end of every branch of \<open>parse_statement\<close>: \<open>optional_newline(); return stmt;\<close>\<close>

definition finish_statement :: "'a \<Rightarrow> token list \<Rightarrow> 'a parse_result" where
  "finish_statement stmt ts = bind (optional_newline ts) (\<lambda>ts1. Inr (stmt, ts1))"

text \<open>\<open>parse_dotted_name\<close> and its loop.\<close>

fun dotted_name_loop :: "nat \<Rightarrow> string \<Rightarrow> token list \<Rightarrow> string parse_result" where
  "dotted_name_loop 0 result ts = Inl OutOfFuel"
| "dotted_name_loop (Suc n) result ts =
     bind (current_is ''DOT'' ts) (\<lambda>dot.
     if dot then
       bind (consume ''DOT'' ts) (\<lambda>(t, ts1).
       bind (consume ''NAME'' ts1) (\<lambda>(name, ts2).
       dotted_name_loop n (result @ ''.'' @ tok_value name) ts2))
     else Inr (result, ts))"

definition parse_dotted_name :: "nat \<Rightarrow> token list \<Rightarrow> string parse_result" where
  "parse_dotted_name n ts =
     bind (consume ''NAME'' ts) (\<lambda>(name, ts1). dotted_name_loop n (tok_value name) ts1)"

definition parse_module_specifier :: "nat \<Rightarrow> token list \<Rightarrow> string parse_result" where
  "parse_module_specifier n ts =
     bind (current_is ''STRING'' ts) (\<lambda>str.
     if str then bind (consume ''STRING'' ts) (\<lambda>(tok, ts1). Inr (tok_value tok, ts1))
     else parse_dotted_name n ts)"

text \<open>
  The loop of \<open>parse_import_specifiers\<close>, and of \<open>parse_export_specifiers\<close>, which has
  the same text with other variable names.
\<close>

fun specifier_loop ::
  "nat \<Rightarrow> (string \<times> string) list \<Rightarrow> token list \<Rightarrow> (string \<times> string) list parse_result" where
  "specifier_loop 0 names ts = Inl OutOfFuel"
| "specifier_loop (Suc n) names ts =
     bind (current_is ''RBRACE'' ts) (\<lambda>close.
     if close then Inr (names, ts)
     else
       bind (consume ''NAME'' ts) (\<lambda>(imported, ts1).
       bind (match ''AS'' ts1) (\<lambda>(as, ts2).
       bind (if as then bind (consume ''NAME'' ts2) (\<lambda>(a, ts3). Inr (tok_value a, ts3))
             else Inr (tok_value imported, ts2)) (\<lambda>(alias, ts3).
       bind (match ''COMMA'' ts3) (\<lambda>(comma, ts4).
       if comma then specifier_loop n (names @ [(tok_value imported, alias)]) ts4
       else Inr (names @ [(tok_value imported, alias)], ts4))))))"

definition parse_import_specifiers :: "nat \<Rightarrow> token list \<Rightarrow> (string \<times> string) list parse_result"
  where
  "parse_import_specifiers n ts =
     bind (consume ''LBRACE'' ts) (\<lambda>(t, ts1).
     bind (specifier_loop n [] ts1) (\<lambda>(names, ts2).
     bind (consume ''RBRACE'' ts2) (\<lambda>(t, ts3). Inr (names, ts3))))"

definition parse_export_specifiers :: "nat \<Rightarrow> token list \<Rightarrow> (string \<times> string) list parse_result"
  where
  "parse_export_specifiers n ts =
     bind (consume ''LBRACE'' ts) (\<lambda>(t, ts1).
     bind (specifier_loop n [] ts1) (\<lambda>(names, ts2).
     bind (consume ''RBRACE'' ts2) (\<lambda>(t, ts3). Inr (names, ts3))))"

text \<open>\<open>if (match("AS")) alias = consume("NAME").value;\<close>\<close>

definition optional_alias :: "token list \<Rightarrow> string option parse_result" where
  "optional_alias ts =
     bind (match ''AS'' ts) (\<lambda>(as, ts1).
     if as then bind (consume ''NAME'' ts1) (\<lambda>(a, ts2). Inr (Some (tok_value a), ts2))
     else Inr (None, ts1))"

text \<open>
  \<open>parse_import_statement\<close>. \<open>import_bindings\<close> is its chain of \<open>if\<close>s that sets
  \<open>default_target\<close>, \<open>names\<close> and \<open>namespace_name\<close> (parser.cpp, lines 184 to 200).
\<close>

definition import_bindings ::
  "nat \<Rightarrow> token list \<Rightarrow> (string option \<times> (string \<times> string) list \<times> string option) parse_result"
  where
  "import_bindings n ts =
     bind (current_is ''NAME'' ts) (\<lambda>name.
     bind (if name then peek_is ''COMMA'' ts else Inr False) (\<lambda>name_comma.
     if name_comma then
       bind (consume ''NAME'' ts) (\<lambda>(d, ts1).
       bind (consume ''COMMA'' ts1) (\<lambda>(t, ts2).
       bind (current_is ''LBRACE'' ts2) (\<lambda>brace.
       if brace then
         bind (parse_import_specifiers n ts2) (\<lambda>(names, ts3).
         Inr ((Some (tok_value d), names, None), ts3))
       else Inl (Exception ''Expected named import list after comma''))))
     else
       bind (if name then peek_is ''FROM'' ts else Inr False) (\<lambda>name_from.
       if name_from then
         bind (consume ''NAME'' ts) (\<lambda>(d, ts1). Inr ((Some (tok_value d), [], None), ts1))
       else
         bind (current_is ''LBRACE'' ts) (\<lambda>brace.
         if brace then
           bind (parse_import_specifiers n ts) (\<lambda>(names, ts1). Inr ((None, names, None), ts1))
         else
           bind (current_is_op [''*''] ts) (\<lambda>star.
           if star then
             bind (consume ''OP'' ts) (\<lambda>(t, ts1).
             bind (consume ''AS'' ts1) (\<lambda>(t, ts2).
             bind (consume ''NAME'' ts2) (\<lambda>(ns, ts3).
             Inr ((None, [], Some (tok_value ns)), ts3))))
           else Inr ((None, [], None), ts))))))"

definition parse_import_statement :: "nat \<Rightarrow> token list \<Rightarrow> 'd node parse_result" where
  "parse_import_statement n ts =
     bind (consume ''IMPORT'' ts) (\<lambda>(t, ts1).
     bind (current_is ''STRING'' ts1) (\<lambda>str.
     if str then
       bind (consume ''STRING'' ts1) (\<lambda>(module_name, ts2).
       bind (optional_alias ts2) (\<lambda>(alias, ts3).
       Inr (Import (tok_value module_name) alias, ts3)))
     else
       bind (import_bindings n ts1) (\<lambda>((default_target, names, namespace_name), ts2).
       if default_target \<noteq> None \<or> names \<noteq> [] \<or> namespace_name \<noteq> None then
         bind (consume ''FROM'' ts2) (\<lambda>(t, ts3).
         bind (parse_module_specifier n ts3) (\<lambda>(module_name, ts4).
         Inr (ImportFrom module_name names default_target namespace_name, ts4)))
       else
         bind (parse_module_specifier n ts2) (\<lambda>(module_name, ts3).
         bind (optional_alias ts3) (\<lambda>(alias, ts4).
         Inr (Import module_name alias, ts4))))))"

definition parse_variable_statement ::
  "(string \<Rightarrow> 'd option) \<Rightarrow> nat \<Rightarrow> bool \<Rightarrow> bool \<Rightarrow> bool \<Rightarrow> token list \<Rightarrow> 'd node parse_result"
  where
  "parse_variable_statement stod n mutable_flag exported is_default ts =
     bind (consume ''NAME'' ts) (\<lambda>(name, ts1).
     bind (current_is_op [''=''] ts1) (\<lambda>eq.
     if \<not> eq then Inl (Exception (''Expected '' @ [ch_squote] @ ''='' @ [ch_squote]
                                    @ '' in variable declaration''))
     else
       bind (consume ''OP'' ts1) (\<lambda>(t, ts2).
       bind (parse_expression stod n ts2) (\<lambda>(val, ts3).
       Inr (LetStmt (tok_value name) val mutable_flag exported is_default, ts3)))))"

text \<open>The parameter loop of \<open>parse_function_statement\<close>.\<close>

fun params_loop :: "nat \<Rightarrow> string list \<Rightarrow> token list \<Rightarrow> string list parse_result" where
  "params_loop 0 params ts = Inl OutOfFuel"
| "params_loop (Suc n) params ts =
     bind (consume ''NAME'' ts) (\<lambda>(p, ts1).
     bind (match ''COMMA'' ts1) (\<lambda>(comma, ts2).
     if comma then params_loop n (params @ [tok_value p]) ts2
     else Inr (params @ [tok_value p], ts2)))"

definition parse_function_statement ::
  "(token list \<Rightarrow> 'd node list parse_result) \<Rightarrow> nat \<Rightarrow> bool \<Rightarrow> bool \<Rightarrow> token list
    \<Rightarrow> 'd node parse_result" where
  "parse_function_statement pb n exported is_default ts =
     bind (consume [] ts) (\<lambda>(t, ts1).
     bind (current_is ''NAME'' ts1) (\<lambda>named.
     bind (if named then bind (consume ''NAME'' ts1) (\<lambda>(name, ts2). Inr (tok_value name, ts2))
           else if is_default then Inr (''_default_export'', ts1)
           else Inl (Exception ''Function declaration requires a name'')) (\<lambda>(name, ts2).
     bind (consume ''LPAREN'' ts2) (\<lambda>(t, ts3).
     bind (current_is ''RPAREN'' ts3) (\<lambda>empty.
     bind (if \<not> empty then params_loop n [] ts3 else Inr ([], ts3)) (\<lambda>(params, ts4).
     bind (consume ''RPAREN'' ts4) (\<lambda>(t, ts5).
     bind (pb ts5) (\<lambda>(body, ts6).
     Inr (FunctionDef name params body exported is_default, ts6)))))))))"

definition parse_export_statement ::
  "(string \<Rightarrow> 'd option) \<Rightarrow> (token list \<Rightarrow> 'd node list parse_result) \<Rightarrow> nat \<Rightarrow> token list
    \<Rightarrow> 'd node parse_result" where
  "parse_export_statement stod pb n ts =
     bind (consume ''EXPORT'' ts) (\<lambda>(t, ts1).
     case ts1 of
       [] \<Rightarrow> Inl IndexOutOfBounds
     | tok # rest \<Rightarrow>
         if tok_type tok = ''DEFAULT'' then
           (case rest of
              [] \<Rightarrow> Inl IndexOutOfBounds
            | tok2 # rest2 \<Rightarrow>
                if tok_type tok2 = ''FN'' \<or> tok_type tok2 = ''FUNCTION'' then
                  parse_function_statement pb n True True rest
                else if tok_type tok2 = ''LET'' \<or> tok_type tok2 = ''CONST'' then
                  parse_variable_statement stod n (tok_type tok2 = ''LET'') True True rest2
                else
                  bind (parse_expression stod n rest) (\<lambda>(val, ts2). Inr (ExportDefault val, ts2)))
         else if tok_type tok = ''FN'' \<or> tok_type tok = ''FUNCTION'' then
           parse_function_statement pb n True False ts1
         else if tok_type tok = ''LET'' \<or> tok_type tok = ''CONST'' then
           parse_variable_statement stod n (tok_type tok = ''LET'') True False rest
         else if tok_type tok = ''LBRACE'' then
           bind (parse_export_specifiers n ts1) (\<lambda>(names, ts2).
           bind (match ''FROM'' ts2) (\<lambda>(from, ts3).
           if from then
             bind (parse_module_specifier n ts3) (\<lambda>(source, ts4).
             Inr (ExportNames names (Some source), ts4))
           else Inr (ExportNames names None, ts3)))
         else Inl (Exception ''Unsupported export statement''))"

definition parse_statement ::
  "(string \<Rightarrow> 'd option) \<Rightarrow> (token list \<Rightarrow> 'd node list parse_result) \<Rightarrow> nat \<Rightarrow> token list
    \<Rightarrow> 'd node parse_result" where
  "parse_statement stod pb n ts =
     (case ts of
        [] \<Rightarrow> Inl IndexOutOfBounds
      | tok # rest \<Rightarrow>
          if tok_type tok = ''IMPORT'' then
            bind (parse_import_statement n ts) (\<lambda>(stmt, ts1). finish_statement stmt ts1)
          else if tok_type tok = ''EXPORT'' then
            bind (parse_export_statement stod pb n ts) (\<lambda>(stmt, ts1). finish_statement stmt ts1)
          else if tok_type tok = ''LET'' \<or> tok_type tok = ''CONST'' then
            bind (parse_variable_statement stod n (tok_type tok = ''LET'') False False rest)
              (\<lambda>(stmt, ts1). finish_statement stmt ts1)
          else if tok_type tok = ''FN'' \<or> tok_type tok = ''FUNCTION'' then
            bind (parse_function_statement pb n False False ts)
              (\<lambda>(stmt, ts1). finish_statement stmt ts1)
          else if tok_type tok = ''RETURN'' then
            (case rest of
               [] \<Rightarrow> Inl IndexOutOfBounds
             | next # rest2 \<Rightarrow>
                 if tok_type next \<noteq> ''NEWLINE'' \<and> tok_type next \<noteq> ''RBRACE''
                    \<and> tok_type next \<noteq> ''EOF'' then
                   bind (parse_expression stod n rest) (\<lambda>(val, ts1).
                   finish_statement (Return (Some val)) ts1)
                 else finish_statement (Return None) rest)
          else if tok_type tok = ''IF'' then
            bind (parse_expression stod n rest) (\<lambda>(test, ts1).
            bind (pb ts1) (\<lambda>(body, ts2).
            bind (match ''ELSE'' ts2) (\<lambda>(else_found, ts3).
            bind (if else_found then pb ts3 else Inr ([], ts3)) (\<lambda>(orelse, ts4).
            finish_statement (IfStmt test body orelse) ts4))))
          else if tok_type tok = ''WHILE'' then
            bind (parse_expression stod n rest) (\<lambda>(test, ts1).
            bind (pb ts1) (\<lambda>(body, ts2).
            finish_statement (While test body) ts2))
          else if tok_type tok = ''FOR'' then
            bind (consume ''NAME'' rest) (\<lambda>(target, ts1).
            bind (consume ''IN'' ts1) (\<lambda>(t, ts2).
            bind (parse_expression stod n ts2) (\<lambda>(iterator, ts3).
            bind (pb ts3) (\<lambda>(body, ts4).
            finish_statement (For (tok_value target) iterator body) ts4))))
          else if tok_type tok = ''SPAWN'' then
            bind (parse_expression stod n rest) (\<lambda>(call_expr, ts1).
            if \<not> is_Call call_expr then Inl (Exception ''spawn expects a function call'')
            else finish_statement (Spawn call_expr) ts1)
          else
            bind (parse_expression stod n ts) (\<lambda>(expr, ts1).
            bind (if is_Name expr \<or> is_Attribute expr then current_is_op [''=''] ts1
                  else Inr False) (\<lambda>assign.
            if assign then
              bind (consume ''OP'' ts1) (\<lambda>(t, ts2).
              bind (parse_expression stod n ts2) (\<lambda>(val, ts3).
              finish_statement (Assign expr val) ts3))
            else finish_statement (Expr expr) ts1)))"

text \<open>
  \<open>parse_block\<close>, where the recursion through blocks is tied; \<open>block_loop\<close> is its
  \<open>while\<close> loop, with the statement parser \<open>ps\<close> it calls.
\<close>

fun block_loop ::
  "(token list \<Rightarrow> 'd node parse_result) \<Rightarrow> nat \<Rightarrow> 'd node list \<Rightarrow> token list
    \<Rightarrow> 'd node list parse_result" where
  "block_loop ps 0 body ts = Inl OutOfFuel"
| "block_loop ps (Suc n) body ts =
     (case ts of
        [] \<Rightarrow> Inl IndexOutOfBounds
      | tok # rest \<Rightarrow>
          if tok_type tok = ''RBRACE'' then Inr (body, ts)
          else if tok_type tok = ''NEWLINE'' \<or> tok_type tok = ''SEMICOLON'' then
            block_loop ps n body rest
          else bind (ps ts) (\<lambda>(stmt, ts1). block_loop ps n (body @ [stmt]) ts1))"

primrec parse_block ::
  "(string \<Rightarrow> 'd option) \<Rightarrow> nat \<Rightarrow> token list \<Rightarrow> 'd node list parse_result" where
  "parse_block stod 0 = (\<lambda>ts. Inl OutOfFuel)"
| "parse_block stod (Suc n) =
     (\<lambda>ts. bind (consume ''LBRACE'' ts) (\<lambda>(t, ts1).
           bind (block_loop (parse_statement stod (parse_block stod n) n) n [] ts1) (\<lambda>(body, ts2).
           bind (consume ''RBRACE'' ts2) (\<lambda>(t, ts3). Inr (body, ts3)))))"

text \<open>
  \<open>Parser::parse\<close>: \<open>module_loop\<close> is its \<open>while\<close> loop. A \<open>ModulePtr\<close> is modelled by
  the body of the module.
\<close>

fun module_loop ::
  "(token list \<Rightarrow> 'd node parse_result) \<Rightarrow> nat \<Rightarrow> 'd node list \<Rightarrow> token list
    \<Rightarrow> error + 'd node list" where
  "module_loop ps 0 body ts = Inl OutOfFuel"
| "module_loop ps (Suc n) body ts =
     (case ts of
        [] \<Rightarrow> Inl IndexOutOfBounds
      | tok # rest \<Rightarrow>
          if tok_type tok = ''EOF'' then Inr body
          else if tok_type tok = ''NEWLINE'' \<or> tok_type tok = ''SEMICOLON'' then
            module_loop ps n body rest
          else bind (ps ts) (\<lambda>(stmt, ts1). module_loop ps n (body @ [stmt]) ts1))"

definition parse_with :: "(string \<Rightarrow> 'd option) \<Rightarrow> nat \<Rightarrow> token list \<Rightarrow> error + 'd node list" where
  "parse_with stod n ts = module_loop (parse_statement stod (parse_block stod n) n) n [] ts"

definition parse :: "(string \<Rightarrow> 'd option) \<Rightarrow> token list \<Rightarrow> error + 'd node list" where
  "parse stod ts = parse_with stod (Suc (length ts)) ts"

section \<open>Code generators (codegen.cpp)\<close>

subsection \<open>repr_string (the same text in both visitors)\<close>

definition repr_char :: "char \<Rightarrow> string" where
  "repr_char c =
     (if c = ch_backslash then [ch_backslash, ch_backslash]
      else if c = ch_dquote then [ch_backslash, ch_dquote]
      else if c = ch_newline then [ch_backslash, CHR ''n'']
      else if c = ch_tab then [ch_backslash, CHR ''t'']
      else if c = ch_return then [ch_backslash, CHR ''r'']
      else [c])"

definition repr_string :: "string \<Rightarrow> string" where
  "repr_string v = [ch_dquote] @ concat (map repr_char v) @ [ch_dquote]"

subsection \<open>IndentedEmitter\<close>

text \<open>
  \<open>indent_\<close> starts at 0 and is only incremented, or decremented after the test
  \<open>indent_ == 0\<close>: it is a natural number.
\<close>

record emitter =
  em_stream :: string
  em_indent :: nat

definition new_emitter :: emitter where
  "new_emitter = \<lparr>em_stream = [], em_indent = 0\<rparr>"

definition em_emit :: "string \<Rightarrow> emitter \<Rightarrow> emitter" where
  "em_emit ln em =
     em\<lparr>em_stream := em_stream em @ replicate (em_indent em * 4) CHR '' '' @ ln @ [ch_newline]\<rparr>"

definition em_do_indent :: "emitter \<Rightarrow> emitter" where
  "em_do_indent em = em\<lparr>em_indent := em_indent em + 1\<rparr>"

definition em_dedent :: "emitter \<Rightarrow> error + emitter" where
  "em_dedent em =
     (if em_indent em = 0 then Inl (Exception ''Indentation underflow'')
      else Inr (em\<lparr>em_indent := em_indent em - 1\<rparr>))"

subsection \<open>PythonVisitor\<close>

record py_visitor =
  emitter :: emitter
  temp_index :: int

definition new_py_visitor :: py_visitor where
  "new_py_visitor = \<lparr>emitter = new_emitter, temp_index = 0\<rparr>"

definition emit :: "string \<Rightarrow> py_visitor \<Rightarrow> py_visitor" where
  "emit ln v = v\<lparr>emitter := em_emit ln (emitter v)\<rparr>"

definition indent :: "py_visitor \<Rightarrow> py_visitor" where
  "indent v = v\<lparr>emitter := em_do_indent (emitter v)\<rparr>"

definition dedent :: "py_visitor \<Rightarrow> error + py_visitor" where
  "dedent v = bind (em_dedent (emitter v)) (\<lambda>em. Inr (v\<lparr>emitter := em\<rparr>))"

text \<open>\<open>temp\<close>: the name, and the visitor with \<open>temp_index_\<close> incremented.\<close>

definition temp :: "string \<Rightarrow> py_visitor \<Rightarrow> string \<times> py_visitor" where
  "temp prefix v =
     (''__trif_'' @ prefix @ ''_'' @ to_string (temp_index v), v\<lparr>temp_index := temp_index v + 1\<rparr>)"

fun join :: "string list \<Rightarrow> string \<Rightarrow> string" where
  "join [] sep = []"
| "join [x] sep = x"
| "join (x # y # ys) sep = x @ sep @ join (y # ys) sep"

fun render_expression :: "('d \<Rightarrow> string) \<Rightarrow> 'd expr \<Rightarrow> string" where
  "render_expression fmt (Name ident) = ident"
| "render_expression fmt (Number d) = fmt d"
| "render_expression fmt (StringLit s) = repr_string s"
| "render_expression fmt (Boolean b) = (if b then ''True'' else ''False'')"
| "render_expression fmt Null = ''None''"
| "render_expression fmt (BinaryOp l opr r) =
     render_expression fmt l @ '' '' @ opr @ '' '' @ render_expression fmt r"
| "render_expression fmt (UnaryOp opr e) = opr @ render_expression fmt e"
| "render_expression fmt (Call f args) =
     render_expression fmt f @ ''('' @ join (map (render_expression fmt) args) '', '' @ '')''"
| "render_expression fmt (Attribute e attr) = render_expression fmt e @ ''.'' @ attr"
| "render_expression fmt (ListLiteral elements) =
     ''['' @ join (map (render_expression fmt) elements) '', '' @ '']''"
| "render_expression fmt (DictLiteral pairs) =
     ''{'' @ join (map (\<lambda>(k, v). render_expression fmt k @ '': '' @ render_expression fmt v) pairs)
              '', '' @ ''}''"

definition visit_import :: "string \<Rightarrow> string option \<Rightarrow> py_visitor \<Rightarrow> py_visitor" where
  "visit_import module alias v =
     (let target = map (\<lambda>ch. if ch = CHR ''.'' \<or> ch = CHR ''-'' then CHR ''_'' else ch)
                     (case alias of Some a \<Rightarrow> a | None \<Rightarrow> module)
      in emit (target @ '' = runtime.import_module('' @ [ch_squote] @ module @ [ch_squote] @ '')'') v)"

definition visit_import_from ::
  "string \<Rightarrow> (string \<times> string) list \<Rightarrow> string option \<Rightarrow> string option \<Rightarrow> py_visitor \<Rightarrow> py_visitor"
  where
  "visit_import_from module names default_name namespace_name v =
     (let (temp_name, v1) = temp ''import'' v;
          v2 = emit (temp_name @ '' = runtime.import_module('' @ [ch_squote] @ module @ [ch_squote]
                      @ '')'') v1;
          v3 = (case namespace_name of Some n \<Rightarrow> emit (n @ '' = '' @ temp_name) v2 | None \<Rightarrow> v2);
          v4 = (case default_name of
                  Some n \<Rightarrow> emit (n @ '' = runtime.extract_default('' @ temp_name @ '')'') v3
                | None \<Rightarrow> v3)
      in fold (\<lambda>(source, alias).
                 emit (alias @ '' = runtime.extract_export('' @ temp_name @ '', '' @ [ch_squote]
                         @ source @ [ch_squote] @ '')''))
           names v4)"

definition emit_export_bindings :: "string \<Rightarrow> bool \<Rightarrow> bool \<Rightarrow> py_visitor \<Rightarrow> py_visitor" where
  "emit_export_bindings name exported is_default v =
     (let v1 = (if exported then
                  emit (''__trif_exports__['' @ [ch_squote] @ name @ [ch_squote] @ ''] = '' @ name) v
                else v)
      in if is_default then emit (''__trif_default_export__ = '' @ name) v1 else v1)"

definition visit_let ::
  "('d \<Rightarrow> string) \<Rightarrow> string \<Rightarrow> 'd expr \<Rightarrow> bool \<Rightarrow> bool \<Rightarrow> bool \<Rightarrow> py_visitor \<Rightarrow> py_visitor" where
  "visit_let fmt name val mutable_flag exported is_default v =
     (let assignment = name @ '' = '' @ render_expression fmt val;
          assignment' = (if \<not> mutable_flag then assignment @ ''  # const'' else assignment)
      in emit_export_bindings name exported is_default (emit assignment' v))"

definition visit_assign :: "('d \<Rightarrow> string) \<Rightarrow> 'd expr \<Rightarrow> 'd expr \<Rightarrow> py_visitor \<Rightarrow> py_visitor" where
  "visit_assign fmt target val v =
     emit (render_expression fmt target @ '' = '' @ render_expression fmt val) v"

definition visit_return :: "('d \<Rightarrow> string) \<Rightarrow> 'd expr option \<Rightarrow> py_visitor \<Rightarrow> py_visitor" where
  "visit_return fmt val v =
     (case val of
        None \<Rightarrow> emit ''return None'' v
      | Some e \<Rightarrow> emit (''return '' @ render_expression fmt e) v)"

definition visit_export_names ::
  "(string \<times> string) list \<Rightarrow> string option \<Rightarrow> py_visitor \<Rightarrow> py_visitor" where
  "visit_export_names names source v =
     (case source of
        Some src \<Rightarrow>
          (let (temp_name, v1) = temp ''export'' v;
               v2 = emit (temp_name @ '' = runtime.import_module('' @ [ch_squote] @ src @ [ch_squote]
                           @ '')'') v1
           in fold (\<lambda>(source_name, alias).
                      emit (''__trif_exports__['' @ [ch_squote] @ alias @ [ch_squote]
                              @ ''] = runtime.extract_export('' @ temp_name @ '', '' @ [ch_squote]
                              @ source_name @ [ch_squote] @ '')''))
                names v2)
      | None \<Rightarrow>
          fold (\<lambda>(local, alias).
                  emit (''__trif_exports__['' @ [ch_squote] @ alias @ [ch_squote] @ ''] = '' @ local))
            names v)"

definition visit_export_default :: "('d \<Rightarrow> string) \<Rightarrow> 'd expr \<Rightarrow> py_visitor \<Rightarrow> py_visitor" where
  "visit_export_default fmt val v = emit (''__trif_default_export__ = '' @ render_expression fmt val) v"

definition visit_spawn :: "('d \<Rightarrow> string) \<Rightarrow> 'd expr \<Rightarrow> py_visitor \<Rightarrow> py_visitor" where
  "visit_spawn fmt call v = emit (''runtime.spawn('' @ render_expression fmt call @ '')'') v"

text \<open>
  \<open>visit\<close> and the visitors that call it back. \<open>visit_all\<close> is the loop
  \<open>for (const auto& stmt : body) visit(stmt)\<close>. The \<open>default\<close> branch of the \<open>switch\<close>
  emits an expression and throws on anything else, which is a \<open>Module\<close>.
\<close>

fun visit :: "('d \<Rightarrow> string) \<Rightarrow> 'd node \<Rightarrow> py_visitor \<Rightarrow> error + py_visitor"
  and visit_all :: "('d \<Rightarrow> string) \<Rightarrow> 'd node list \<Rightarrow> py_visitor \<Rightarrow> error + py_visitor"
where
  "visit fmt (Import module alias) v = Inr (visit_import module alias v)"
| "visit fmt (ImportFrom module names default_name namespace_name) v =
     Inr (visit_import_from module names default_name namespace_name v)"
| "visit fmt (LetStmt name val mutable_flag exported is_default) v =
     Inr (visit_let fmt name val mutable_flag exported is_default v)"
| "visit fmt (Assign target val) v = Inr (visit_assign fmt target val v)"
| "visit fmt (FunctionDef name params body exported is_default) v =
     (let v1 = indent (emit (''def '' @ name @ ''('' @ join params '', '' @ ''):'') v) in
      bind (if body = [] then Inr (emit ''return None'' v1)
            else bind (visit_all fmt body v1) (\<lambda>v2.
                   if body = [] \<or> \<not> is_Return (last body) then Inr (emit ''return None'' v2)
                   else Inr v2)) (\<lambda>v3.
      bind (dedent v3) (\<lambda>v4.
      Inr (emit [] (emit_export_bindings name exported is_default v4)))))"
| "visit fmt (Return val) v = Inr (visit_return fmt val v)"
| "visit fmt (ExportNames names source) v = Inr (visit_export_names names source v)"
| "visit fmt (ExportDefault val) v = Inr (visit_export_default fmt val v)"
| "visit fmt (IfStmt test body orelse) v =
     (let v1 = indent (emit (''if '' @ render_expression fmt test @ '':'') v) in
      bind (visit_all fmt body v1) (\<lambda>v2.
      bind (dedent v2) (\<lambda>v3.
      if orelse \<noteq> [] then
        bind (visit_all fmt orelse (indent (emit ''else:'' v3))) (\<lambda>v4. dedent v4)
      else Inr v3)))"
| "visit fmt (While test body) v =
     (let v1 = indent (emit (''while '' @ render_expression fmt test @ '':'') v) in
      bind (visit_all fmt body v1) (\<lambda>v2. dedent v2))"
| "visit fmt (For target iterator body) v =
     (let v1 = indent (emit (''for '' @ target @ '' in '' @ render_expression fmt iterator @ '':'') v)
      in bind (visit_all fmt body v1) (\<lambda>v2. dedent v2))"
| "visit fmt (Spawn call) v = Inr (visit_spawn fmt call v)"
| "visit fmt (Expr e) v = Inr (emit (render_expression fmt e) v)"
| "visit fmt (Module body) v = Inl (Exception ''Unsupported node in Python generator'')"
| "visit_all fmt [] v = Inr v"
| "visit_all fmt (stmt # stmts) v = bind (visit fmt stmt v) (\<lambda>v1. visit_all fmt stmts v1)"

text \<open>\<open>PythonVisitor::generate\<close>, on the body of the module.\<close>

definition py_prelude :: "py_visitor \<Rightarrow> error + py_visitor" where
  "py_prelude v0 =
     (let v1 = emit ''import pathlib'' v0;
          v2 = emit ''import sys'' v1;
          v3 = emit (''_trif_origin = pathlib.Path(__file__).resolve().parent if ''
                     @ [ch_squote] @ ''__file__'' @ [ch_squote]
                     @ '' in globals() else pathlib.Path.cwd()'') v2;
          v4 = emit ''for _candidate in (_trif_origin, _trif_origin.parent):'' v3;
          v5 = indent v4;
          v6 = emit (''candidate_pkg = _candidate / '' @ [ch_squote] @ ''trif_lang'' @ [ch_squote]) v5;
          v7 = emit ''if candidate_pkg.exists():'' v6;
          v8 = indent v7;
          v9 = emit ''if str(_candidate) not in sys.path:'' v8;
          v10 = indent v9;
          v11 = emit ''sys.path.insert(0, str(_candidate))'' v10
      in bind (dedent v11) (\<lambda>v12.
         bind (dedent (emit ''break'' v12)) (\<lambda>v13.
         bind (dedent v13) (\<lambda>v14.
         Inr (emit [] (emit ''__trif_default_export__ = None'' (emit ''__trif_exports__ = {}''
               (emit ''from trif_lang.runtime import runtime'' v14))))))))"

definition py_epilogue :: "py_visitor \<Rightarrow> error + py_visitor" where
  "py_epilogue v0 =
     (let v1 = emit [] v0;
          v2 = emit ''runtime.register_module_exports(__name__, __trif_exports__, __trif_default_export__)''
                 v1;
          v3 = emit [] v2;
          v4 = emit (''if __name__ == '' @ [ch_squote] @ ''__main__'' @ [ch_squote] @ '':'') v3;
          v5 = indent v4;
          v6 = emit ''runtime.default_entry_point(locals())'' v5
      in dedent v6)"

definition py_visitor_generate :: "('d \<Rightarrow> string) \<Rightarrow> 'd node list \<Rightarrow> py_visitor \<Rightarrow> error + string"
  where
  "py_visitor_generate fmt body v0 =
     bind (py_prelude v0) (\<lambda>v1.
     bind (visit_all fmt body v1) (\<lambda>v2.
     bind (py_epilogue v2) (\<lambda>v3.
     Inr (em_stream (emitter v3)))))"

text \<open>\<open>PythonGenerator::generate\<close> constructs the visitor.\<close>

definition python_generate :: "('d \<Rightarrow> string) \<Rightarrow> 'd node list \<Rightarrow> error + string" where
  "python_generate fmt body = py_visitor_generate fmt body new_py_visitor"

subsection \<open>JavaScriptVisitor\<close>

text \<open>
  The JavaScript visitor has an emitter and no counter. Its functions carry the prefix
  \<open>js_\<close>; \<open>join\<close> and \<open>repr_string\<close> have the same text as in the Python visitor.
\<close>

record js_visitor =
  js_emitter :: emitter

definition new_js_visitor :: js_visitor where
  "new_js_visitor = \<lparr>js_emitter = new_emitter\<rparr>"

definition js_emit :: "string \<Rightarrow> js_visitor \<Rightarrow> js_visitor" where
  "js_emit ln v = v\<lparr>js_emitter := em_emit ln (js_emitter v)\<rparr>"

definition js_indent :: "js_visitor \<Rightarrow> js_visitor" where
  "js_indent v = v\<lparr>js_emitter := em_do_indent (js_emitter v)\<rparr>"

definition js_dedent :: "js_visitor \<Rightarrow> error + js_visitor" where
  "js_dedent v = bind (em_dedent (js_emitter v)) (\<lambda>em. Inr (v\<lparr>js_emitter := em\<rparr>))"

fun js_render_expression :: "('d \<Rightarrow> string) \<Rightarrow> 'd expr \<Rightarrow> string" where
  "js_render_expression fmt (Name ident) = ident"
| "js_render_expression fmt (Number d) = fmt d"
| "js_render_expression fmt (StringLit s) = repr_string s"
| "js_render_expression fmt (Boolean b) = (if b then ''true'' else ''false'')"
| "js_render_expression fmt Null = ''null''"
| "js_render_expression fmt (BinaryOp l opr r) =
     js_render_expression fmt l @ '' '' @ opr @ '' '' @ js_render_expression fmt r"
| "js_render_expression fmt (UnaryOp opr e) = opr @ js_render_expression fmt e"
| "js_render_expression fmt (Call f args) =
     js_render_expression fmt f @ ''('' @ join (map (js_render_expression fmt) args) '', '' @ '')''"
| "js_render_expression fmt (Attribute e attr) = js_render_expression fmt e @ ''.'' @ attr"
| "js_render_expression fmt (ListLiteral elements) =
     ''['' @ join (map (js_render_expression fmt) elements) '', '' @ '']''"
| "js_render_expression fmt (DictLiteral pairs) =
     ''{'' @ join (map (\<lambda>(k, v). js_render_expression fmt k @ '': '' @ js_render_expression fmt v)
                    pairs) '', '' @ ''}''"

definition js_visit_import :: "string \<Rightarrow> string option \<Rightarrow> js_visitor \<Rightarrow> js_visitor" where
  "js_visit_import module alias v =
     (let target = (case alias of Some a \<Rightarrow> a | None \<Rightarrow> module)
      in js_emit (''const '' @ target @ '' = await runtime.importModule('' @ [ch_squote] @ module
                   @ [ch_squote] @ '');'') v)"

definition js_visit_import_from ::
  "string \<Rightarrow> (string \<times> string) list \<Rightarrow> string option \<Rightarrow> string option \<Rightarrow> js_visitor \<Rightarrow> js_visitor"
  where
  "js_visit_import_from module names default_name namespace_name v =
     (let v1 = js_emit (''const __mod = await runtime.importModule('' @ [ch_squote] @ module
                         @ [ch_squote] @ '');'') v;
          v2 = (case namespace_name of
                  Some n \<Rightarrow> js_emit (''const '' @ n @ '' = __mod;'') v1
                | None \<Rightarrow> v1);
          v3 = (case default_name of
                  Some n \<Rightarrow> js_emit (''const '' @ n @ '' = runtime.extractDefault(__mod);'') v2
                | None \<Rightarrow> v2)
      in fold (\<lambda>(source, alias).
                 js_emit (''const '' @ alias @ '' = runtime.extractExport(__mod, '' @ [ch_squote]
                            @ source @ [ch_squote] @ '');''))
           names v3)"

definition js_emit_export_bindings :: "string \<Rightarrow> bool \<Rightarrow> bool \<Rightarrow> js_visitor \<Rightarrow> js_visitor" where
  "js_emit_export_bindings name exported is_default v =
     (let v1 = (if exported then
                  js_emit (''__trif_exports__.set('' @ [ch_squote] @ name @ [ch_squote] @ '', ''
                            @ name @ '');'') v
                else v)
      in if is_default then js_emit (''__trif_default_export__ = '' @ name @ '';'') v1 else v1)"

definition js_visit_let ::
  "('d \<Rightarrow> string) \<Rightarrow> string \<Rightarrow> 'd expr \<Rightarrow> bool \<Rightarrow> bool \<Rightarrow> bool \<Rightarrow> js_visitor \<Rightarrow> js_visitor" where
  "js_visit_let fmt name val mutable_flag exported is_default v =
     (let keyword = (if mutable_flag then ''let'' else ''const'')
      in js_emit_export_bindings name exported is_default
           (js_emit (keyword @ '' '' @ name @ '' = '' @ js_render_expression fmt val @ '';'') v))"

definition js_visit_assign :: "('d \<Rightarrow> string) \<Rightarrow> 'd expr \<Rightarrow> 'd expr \<Rightarrow> js_visitor \<Rightarrow> js_visitor" where
  "js_visit_assign fmt target val v =
     js_emit (js_render_expression fmt target @ '' = '' @ js_render_expression fmt val @ '';'') v"

definition js_visit_return :: "('d \<Rightarrow> string) \<Rightarrow> 'd expr option \<Rightarrow> js_visitor \<Rightarrow> js_visitor" where
  "js_visit_return fmt val v =
     (case val of
        None \<Rightarrow> js_emit ''return null;'' v
      | Some e \<Rightarrow> js_emit (''return '' @ js_render_expression fmt e @ '';'') v)"

definition js_visit_export_names ::
  "(string \<times> string) list \<Rightarrow> string option \<Rightarrow> js_visitor \<Rightarrow> js_visitor" where
  "js_visit_export_names names source v =
     (case source of
        Some src \<Rightarrow>
          (let v1 = js_emit (''const __mod = await runtime.importModule('' @ [ch_squote] @ src
                              @ [ch_squote] @ '');'') v
           in fold (\<lambda>(source_name, alias).
                      js_emit (''__trif_exports__.set('' @ [ch_squote] @ alias @ [ch_squote]
                                 @ '', runtime.extractExport(__mod, '' @ [ch_squote] @ source_name
                                 @ [ch_squote] @ ''));''))
                names v1)
      | None \<Rightarrow>
          fold (\<lambda>(local, alias).
                  js_emit (''__trif_exports__.set('' @ [ch_squote] @ alias @ [ch_squote] @ '', ''
                             @ local @ '');''))
            names v)"

definition js_visit_export_default :: "('d \<Rightarrow> string) \<Rightarrow> 'd expr \<Rightarrow> js_visitor \<Rightarrow> js_visitor"
  where
  "js_visit_export_default fmt val v =
     js_emit (''__trif_default_export__ = '' @ js_render_expression fmt val @ '';'') v"

definition js_visit_spawn :: "('d \<Rightarrow> string) \<Rightarrow> 'd expr \<Rightarrow> js_visitor \<Rightarrow> js_visitor" where
  "js_visit_spawn fmt call v = js_emit (''runtime.spawn('' @ js_render_expression fmt call @ '');'') v"

fun js_visit :: "('d \<Rightarrow> string) \<Rightarrow> 'd node \<Rightarrow> js_visitor \<Rightarrow> error + js_visitor"
  and js_visit_all :: "('d \<Rightarrow> string) \<Rightarrow> 'd node list \<Rightarrow> js_visitor \<Rightarrow> error + js_visitor"
where
  "js_visit fmt (Import module alias) v = Inr (js_visit_import module alias v)"
| "js_visit fmt (ImportFrom module names default_name namespace_name) v =
     Inr (js_visit_import_from module names default_name namespace_name v)"
| "js_visit fmt (LetStmt name val mutable_flag exported is_default) v =
     Inr (js_visit_let fmt name val mutable_flag exported is_default v)"
| "js_visit fmt (Assign target val) v = Inr (js_visit_assign fmt target val v)"
| "js_visit fmt (FunctionDef name params body exported is_default) v =
     (let v1 = js_indent (js_emit (''function '' @ name @ ''('' @ join params '', '' @ '') {'') v) in
      bind (if body = [] then Inr (js_emit ''return null;'' v1)
            else bind (js_visit_all fmt body v1) (\<lambda>v2. Inr (js_emit ''return null;'' v2))) (\<lambda>v3.
      bind (js_dedent v3) (\<lambda>v4.
      Inr (js_emit [] (js_emit_export_bindings name exported is_default (js_emit ''}'' v4))))))"
| "js_visit fmt (Return val) v = Inr (js_visit_return fmt val v)"
| "js_visit fmt (ExportNames names source) v = Inr (js_visit_export_names names source v)"
| "js_visit fmt (ExportDefault val) v = Inr (js_visit_export_default fmt val v)"
| "js_visit fmt (IfStmt test body orelse) v =
     (let v1 = js_indent (js_emit (''if ('' @ js_render_expression fmt test @ '') {'') v) in
      bind (js_visit_all fmt body v1) (\<lambda>v2.
      bind (js_dedent v2) (\<lambda>v3.
      bind (if orelse \<noteq> [] then
              bind (js_visit_all fmt orelse (js_indent (js_emit ''} else {'' v3))) (\<lambda>v4. js_dedent v4)
            else Inr v3) (\<lambda>v5.
      Inr (js_emit ''}'' v5)))))"
| "js_visit fmt (While test body) v =
     (let v1 = js_indent (js_emit (''while ('' @ js_render_expression fmt test @ '') {'') v) in
      bind (js_visit_all fmt body v1) (\<lambda>v2.
      bind (js_dedent v2) (\<lambda>v3. Inr (js_emit ''}'' v3))))"
| "js_visit fmt (For target iterator body) v =
     (let v1 = js_indent (js_emit (''for (const '' @ target @ '' of ''
                                    @ js_render_expression fmt iterator @ '') {'') v) in
      bind (js_visit_all fmt body v1) (\<lambda>v2.
      bind (js_dedent v2) (\<lambda>v3. Inr (js_emit ''}'' v3))))"
| "js_visit fmt (Spawn call) v = Inr (js_visit_spawn fmt call v)"
| "js_visit fmt (Expr e) v = Inr (js_emit (js_render_expression fmt e @ '';'') v)"
| "js_visit fmt (Module body) v = Inl (Exception ''Unsupported node in JS generator'')"
| "js_visit_all fmt [] v = Inr v"
| "js_visit_all fmt (stmt # stmts) v = bind (js_visit fmt stmt v) (\<lambda>v1. js_visit_all fmt stmts v1)"

definition js_visitor_generate :: "('d \<Rightarrow> string) \<Rightarrow> 'd node list \<Rightarrow> js_visitor \<Rightarrow> error + string"
  where
  "js_visitor_generate fmt body v0 =
     (let v1 = js_emit (''import { runtime } from '' @ [ch_squote] @ ''@trif/lang/runtime.js''
                         @ [ch_squote]) v0;
          v2 = js_emit ''const __trif_exports__ = new Map();'' v1;
          v3 = js_emit ''let __trif_default_export__ = null;'' v2;
          v4 = js_emit [] v3
      in bind (js_visit_all fmt body v4) (\<lambda>v5.
         Inr (em_stream (js_emitter
                (js_emit ''export const exports = __trif_exports__;''
                  (js_emit ''export default __trif_default_export__;'' (js_emit [] v5)))))))"

definition javascript_generate :: "('d \<Rightarrow> string) \<Rightarrow> 'd node list \<Rightarrow> error + string" where
  "javascript_generate fmt body = js_visitor_generate fmt body new_js_visitor"

section \<open>Compiler (compiler.cpp)\<close>

record compile_options =
  target :: string
  aggressive_errors :: bool

text \<open>\<open>CompileResult\<close>: the module (its body) and the output text.\<close>

record 'd compile_result =
  result_module :: "'d node list"
  output_text :: "string option"

definition generate_cpp_stub :: "'d node list \<Rightarrow> string" where
  "generate_cpp_stub module =
     ''#include <trif/runtime.hpp>'' @ [ch_newline]
     @ ''#include <utility>'' @ [ch_newline]
     @ [ch_newline]
     @ ''int main(int argc, char** argv) {'' @ [ch_newline]
     @ ''    trif::runtime::Runtime runtime;'' @ [ch_newline]
     @ ''    auto exports = runtime.create_module();'' @ [ch_newline]
     @ ''    auto default_export = runtime.null_value();'' @ [ch_newline]
     @ ''    runtime.bootstrap(argv[0]);'' @ [ch_newline]
     @ ''    // TODO: Generated body'' @ [ch_newline]
     @ ''    runtime.register_module(exports, default_export);'' @ [ch_newline]
     @ ''    return 0;'' @ [ch_newline]
     @ ''}'' @ [ch_newline]"

text \<open>
  The body of the \<open>try\<close> block of \<open>compile_source\<close>. \<open>stod\<close> and \<open>fmt\<close> are the platform's
  \<open>std::stod\<close> and the output of a double on a stream.
\<close>

definition compile_pipeline ::
  "(string \<Rightarrow> 'd option) \<Rightarrow> ('d \<Rightarrow> string) \<Rightarrow> string \<Rightarrow> compile_options \<Rightarrow> error + 'd compile_result"
  where
  "compile_pipeline stod fmt source options =
     bind (tokenize source) (\<lambda>tokens.
     bind (parse stod tokens) (\<lambda>module.
     if target options = ''python'' then
       bind (python_generate fmt module) (\<lambda>text.
       Inr \<lparr>result_module = module, output_text = Some text\<rparr>)
     else if target options = ''javascript'' \<or> target options = ''js'' then
       bind (javascript_generate fmt module) (\<lambda>text.
       Inr \<lparr>result_module = module, output_text = Some text\<rparr>)
     else if target options = ''cpp'' \<or> target options = ''c++'' then
       Inr \<lparr>result_module = module, output_text = Some (generate_cpp_stub module)\<rparr>
     else Inl (Exception (''Unknown target: '' @ target options))))"

text \<open>
  \<open>compile_source\<close>: the \<open>catch (const std::exception& exc)\<close> rethrows, or throws a
  \<open>runtime_error\<close> with the prefixed message. The two failures that exist only in the
  model are not C++ exceptions and pass through.
\<close>

definition compile_source ::
  "(string \<Rightarrow> 'd option) \<Rightarrow> ('d \<Rightarrow> string) \<Rightarrow> string \<Rightarrow> compile_options \<Rightarrow> error + 'd compile_result"
  where
  "compile_source stod fmt source options =
     (case compile_pipeline stod fmt source options of
        Inr result \<Rightarrow> Inr result
      | Inl (Exception what) \<Rightarrow>
          if aggressive_errors options then Inl (Exception what)
          else Inl (Exception (''Compilation failed: '' @ what))
      | Inl e \<Rightarrow> Inl e)"

text \<open>
  \<open>compile_file\<close>. The file system is the parameter \<open>read_file\<close>: the content of the
  file at a path, or \<open>None\<close> where the \<open>ifstream\<close> cannot be opened.
\<close>

definition compile_file ::
  "(string \<Rightarrow> string option) \<Rightarrow> (string \<Rightarrow> 'd option) \<Rightarrow> ('d \<Rightarrow> string) \<Rightarrow> string
    \<Rightarrow> compile_options \<Rightarrow> error + 'd compile_result" where
  "compile_file read_file stod fmt path options =
     (case read_file path of
        None \<Rightarrow> Inl (Exception (''Unable to open file: '' @ path))
      | Some source \<Rightarrow> compile_source stod fmt source options)"

section \<open>String literals survive decoding and re-emission\<close>

definition plain_char :: "char \<Rightarrow> bool" where
  "plain_char c = (c \<noteq> ch_backslash \<and> c \<noteq> ch_dquote \<and> c \<noteq> ch_newline \<and> c \<noteq> ch_tab
     \<and> c \<noteq> ch_return)"

lemma decode_content_plain:
  "list_all (\<lambda>c. c \<noteq> ch_backslash) p \<Longrightarrow> decode_content p = p"
  by (induction p rule: decode_content.induct) simp_all

lemma repr_chars_plain:
  "list_all plain_char p \<Longrightarrow> concat (map repr_char p) = p"
  by (induction p) (simp_all add: repr_char_def plain_char_def)

lemma decode_quoted:
  "decode_string_literal (q # p @ [q']) = decode_content p"
  by (simp add: decode_string_literal_def)

text \<open>
  C7. A literal \<open>q p q\<close> (\<open>q\<close> either quote character) whose payload \<open>p\<close> has no
  backslash, double quote, newline, tab or carriage return is decoded by the lexer
  to \<open>p\<close>, and the generator's \<open>repr_string\<close> renders it as \<open>p\<close> between double quotes.
\<close>

theorem string_literal_roundtrip:
  assumes "list_all plain_char p"
  shows "repr_string (decode_string_literal (q # p @ [q])) = [ch_dquote] @ p @ [ch_dquote]"
proof -
  from assms have "list_all (\<lambda>c. c \<noteq> ch_backslash) p"
    by (induction p) (simp_all add: plain_char_def)
  then have "decode_string_literal (q # p @ [q]) = p"
    by (simp add: decode_quoted decode_content_plain)
  with assms show ?thesis
    by (simp add: repr_string_def repr_chars_plain)
qed

theorem string_literal_roundtrip_witness:
  "list_all plain_char ''a b'' \<and>
   repr_string (decode_string_literal (ch_squote # ''a b'' @ [ch_squote])) =
     [ch_dquote] @ ''a b'' @ [ch_dquote]"
  using string_literal_roundtrip [of "''a b''" ch_squote]
  by (simp add: plain_char_def ch_defs)

section \<open>Unterminated block comments\<close>

text \<open>
  Whenever the loop of \<open>tokenize\<close> stands at a \<open>/*\<close> and finds no \<open>*/\<close> in the remaining
  text, it throws a message built from the line alone: the column and the tokens read so
  far have no part in it.
\<close>

lemma unterminated_message:
  assumes "find_str ''*/'' (''/*'' @ rest) = None"
  shows "tokenize_from (''/*'' @ rest) line column tokens =
           Inl (Exception (''Unterminated block comment at line '' @ to_string line))"
  using assms by (subst tokenize_from.simps) simp

text \<open>
  C5 fails on the code: the message of an unterminated block comment holds the line and
  no column. On \<open>  /*\<close> the comment opens at line 1, column 3, and the message is
  \<open>Unterminated block comment at line 1\<close>; the other failure of the lexer, on \<open>  @\<close>,
  reports \<open>line 1 column 3\<close>. The line is the one the lexer has counted, 2 after a
  \<open>NEWLINE\<close> token. On \<open>/*/\<close> the search for \<open>*/\<close> starts at the \<open>/*\<close> itself and
  finds the \<open>*/\<close> that overlaps it, so the text is skipped as a closed comment and
  \<open>tokenize\<close> returns.
\<close>

theorem block_comment_error_without_column:
  "tokenize ''  /*'' = Inl (Exception ''Unterminated block comment at line 1'') \<and>
   tokenize ''  @'' =
     Inl (Exception (''Unexpected character '' @ [ch_squote] @ ''@'' @ [ch_squote]
                      @ '' at line 1 column 3'')) \<and>
   tokenize (''a'' @ [ch_newline] @ ''  /* b'') =
     Inl (Exception ''Unterminated block comment at line 2'') \<and>
   tokenize ''/*/'' = Inr [mk_token ''EOF'' [] 1 4]"
  by code_simp


section \<open>The Python generator keeps its indentation balanced\<close>

lemma emit_fields [simp]:
  "em_stream (emitter (emit ln v)) =
     em_stream (emitter v) @ replicate (em_indent (emitter v) * 4) CHR '' '' @ ln @ [ch_newline]"
  "em_indent (emitter (emit ln v)) = em_indent (emitter v)"
  "temp_index (emit ln v) = temp_index v"
  by (simp_all add: emit_def em_emit_def)

lemma indent_fields [simp]:
  "em_stream (emitter (indent v)) = em_stream (emitter v)"
  "em_indent (emitter (indent v)) = Suc (em_indent (emitter v))"
  "temp_index (indent v) = temp_index v"
  by (simp_all add: indent_def em_do_indent_def)

lemma bind_eq_Inr: "bind m f = Inr y \<longleftrightarrow> (\<exists>x. m = Inr x \<and> f x = Inr y)"
  by (cases m) simp_all

lemma bind_eq_Inl: "bind m f = Inl e \<longleftrightarrow> m = Inl e \<or> (\<exists>x. m = Inr x \<and> f x = Inl e)"
  by (cases m) simp_all

lemma dedent_Inr:
  "dedent v = Inr v' \<Longrightarrow>
     em_indent (emitter v) = Suc (em_indent (emitter v')) \<and>
     em_stream (emitter v') = em_stream (emitter v) \<and> temp_index v' = temp_index v"
  by (auto simp: dedent_def em_dedent_def split: if_splits)

lemma dedent_Suc:
  "em_indent (emitter v) = Suc k \<Longrightarrow>
     \<exists>v'. dedent v = Inr v' \<and> em_indent (emitter v') = k \<and>
          em_stream (emitter v') = em_stream (emitter v) \<and> temp_index v' = temp_index v"
  by (simp add: dedent_def em_dedent_def)

lemma fold_emit_indent:
  "em_indent (emitter (fold (\<lambda>(a, b). emit (f a b)) xs v)) = em_indent (emitter v)"
  by (induction xs arbitrary: v) (simp_all split: prod.splits)

lemma temp_fields [simp]:
  "em_indent (emitter (snd (temp p v))) = em_indent (emitter v)"
  "em_stream (emitter (snd (temp p v))) = em_stream (emitter v)"
  by (simp_all add: temp_def)

lemma export_bindings_indent [simp]:
  "em_indent (emitter (emit_export_bindings name e d v)) = em_indent (emitter v)"
  by (simp add: emit_export_bindings_def Let_def)

lemma simple_visitors_indent [simp]:
  "em_indent (emitter (visit_import m a v)) = em_indent (emitter v)"
  "em_indent (emitter (visit_import_from m ns dn nn v)) = em_indent (emitter v)"
  "em_indent (emitter (visit_let fmt name val mf e d v)) = em_indent (emitter v)"
  "em_indent (emitter (visit_assign fmt t val v)) = em_indent (emitter v)"
  "em_indent (emitter (visit_return fmt r v)) = em_indent (emitter v)"
  "em_indent (emitter (visit_export_names ns src v)) = em_indent (emitter v)"
  "em_indent (emitter (visit_export_default fmt val v)) = em_indent (emitter v)"
  "em_indent (emitter (visit_spawn fmt c v)) = em_indent (emitter v)"
  by (simp_all add: visit_import_def visit_import_from_def visit_let_def visit_assign_def
      visit_return_def visit_export_names_def visit_export_default_def visit_spawn_def
      Let_def fold_emit_indent split: option.splits prod.splits)
     (metis snd_conv temp_fields(1))+

lemma visit_balanced:
  "visit fmt n v = Inr v' \<Longrightarrow> em_indent (emitter v') = em_indent (emitter v)"
  "visit_all fmt ns v = Inr v' \<Longrightarrow> em_indent (emitter v') = em_indent (emitter v)"
proof (induction fmt n v and fmt ns v arbitrary: v' and v' rule: visit_visit_all.induct)
  case (5 fmt name params body exported is_default v)
  define v1 where "v1 = indent (emit (''def '' @ name @ ''('' @ join params '', '' @ ''):'') v)"
  from "5.prems" [unfolded visit.simps Let_def, folded v1_def] obtain v3 v4 where
    s1: "(if body = [] then Inr (emit ''return None'' v1)
          else bind (visit_all fmt body v1) (\<lambda>v2.
                 if body = [] \<or> \<not> is_Return (last body) then Inr (emit ''return None'' v2)
                 else Inr v2)) = Inr v3"
    and s2: "dedent v3 = Inr v4"
    and s3: "v' = emit [] (emit_export_bindings name exported is_default v4)"
    by (auto simp: bind_eq_Inr)
  have "em_indent (emitter v3) = em_indent (emitter v1)"
  proof (cases "body = []")
    case True
    with s1 show ?thesis by auto
  next
    case False
    with s1 obtain v2 where "visit_all fmt body v1 = Inr v2" and "em_indent (emitter v3) = em_indent (emitter v2)"
      by (auto simp: bind_eq_Inr split: if_splits)
    with "5.IH" [OF v1_def False] show ?thesis by simp
  qed
  with s2 s3 show ?case
    by (auto simp: v1_def dest!: dedent_Inr)
next
  case (9 fmt test body orelse v)
  define v1 where "v1 = indent (emit (''if '' @ render_expression fmt test @ '':'') v)"
  from "9.prems" [unfolded visit.simps Let_def, folded v1_def] obtain v2 v3 where
    s1: "visit_all fmt body v1 = Inr v2"
    and s2: "dedent v2 = Inr v3"
    and s3: "(if orelse \<noteq> [] then
               bind (visit_all fmt orelse (indent (emit ''else:'' v3))) (\<lambda>v4. dedent v4)
             else Inr v3) = Inr v'"
    by (auto simp: bind_eq_Inr)
  from "9.IH"(1) [OF v1_def s1] have l2: "em_indent (emitter v2) = em_indent (emitter v1)" .
  with s2 have l3: "em_indent (emitter v3) = em_indent (emitter v)" by (auto simp: v1_def dest!: dedent_Inr)
  show ?case
  proof (cases "orelse = []")
    case True
    with s3 l3 show ?thesis by simp
  next
    case False
    with s3 obtain v4 where s4: "visit_all fmt orelse (indent (emit ''else:'' v3)) = Inr v4"
      and s5: "dedent v4 = Inr v'"
      by (auto simp: bind_eq_Inr)
    from "9.IH"(2) [OF v1_def s1 s2 False s4] s5 l3 show ?thesis
      by (auto dest!: dedent_Inr)
  qed
next
  case (10 fmt test body v)
  define v1 where "v1 = indent (emit (''while '' @ render_expression fmt test @ '':'') v)"
  from "10.prems" [unfolded visit.simps Let_def, folded v1_def] obtain v2 where s1: "visit_all fmt body v1 = Inr v2" and s2: "dedent v2 = Inr v'"
    by (auto simp: bind_eq_Inr)
  from "10.IH" [OF v1_def s1] s2 show ?case
    by (auto simp: v1_def dest!: dedent_Inr)
next
  case (11 fmt target iterator body v)
  define v1 where
    "v1 = indent (emit (''for '' @ target @ '' in '' @ render_expression fmt iterator @ '':'') v)"
  from "11.prems" [unfolded visit.simps Let_def, folded v1_def] obtain v2 where s1: "visit_all fmt body v1 = Inr v2" and s2: "dedent v2 = Inr v'"
    by (auto simp: bind_eq_Inr)
  from "11.IH" [OF v1_def s1] s2 show ?case
    by (auto simp: v1_def dest!: dedent_Inr)
next
  case (16 fmt stmt stmts v)
  from "16.prems" obtain v1 where s1: "visit fmt stmt v = Inr v1" and s2: "visit_all fmt stmts v1 = Inr v'"
    by (auto simp: bind_eq_Inr)
  from "16.IH"(1) [OF s1] "16.IH"(2) [OF s1 s2] show ?case by simp
qed auto


section \<open>The trailing return None of a Python function\<close>

definition indentation :: "nat \<Rightarrow> string" where
  "indentation k = replicate (k * 4) CHR '' ''"

definition export_lines :: "nat \<Rightarrow> string \<Rightarrow> bool \<Rightarrow> bool \<Rightarrow> string" where
  "export_lines k name exported is_default =
     (if exported then
        indentation k @ ''__trif_exports__['' @ [ch_squote] @ name @ [ch_squote] @ ''] = '' @ name
          @ [ch_newline]
      else [])
     @ (if is_default then indentation k @ ''__trif_default_export__ = '' @ name @ [ch_newline]
        else [])"

lemma export_bindings_stream:
  "em_stream (emitter (emit_export_bindings name exported is_default v)) =
     em_stream (emitter v) @ export_lines (em_indent (emitter v)) name exported is_default"
  by (simp add: emit_export_bindings_def export_lines_def indentation_def Let_def)

lemma function_def_general:
  assumes body: "visit_all fmt body (indent (emit (''def '' @ name @ ''('' @ join params '', '' @ ''):'') v))
             = Inr v2"
  shows "\<exists>v'. visit fmt (FunctionDef name params body exported is_default) v = Inr v' \<and>
           em_stream (emitter v') =
             em_stream (emitter v2)
             @ (if body = [] \<or> \<not> is_Return (last body)
                then indentation (em_indent (emitter v) + 1) @ ''return None'' @ [ch_newline]
                else [])
             @ export_lines (em_indent (emitter v)) name exported is_default
             @ indentation (em_indent (emitter v)) @ [ch_newline]"
proof -
  define v1 where "v1 = indent (emit (''def '' @ name @ ''('' @ join params '', '' @ ''):'') v)"
  define v3 where
    "v3 = (if body = [] \<or> \<not> is_Return (last body) then emit ''return None'' v2 else v2)"
  from body have b: "visit_all fmt body v1 = Inr v2" by (simp only: v1_def)
  then have l2: "em_indent (emitter v2) = Suc (em_indent (emitter v))"
    by (simp add: visit_balanced(2) v1_def)
  then have l3: "em_indent (emitter v3) = Suc (em_indent (emitter v))"
    by (simp add: v3_def)
  then obtain v4 where d: "dedent v3 = Inr v4" and l4: "em_indent (emitter v4) = em_indent (emitter v)"
    and s4: "em_stream (emitter v4) = em_stream (emitter v3)"
    using dedent_Suc by blast
  have e: "body = [] \<Longrightarrow> v2 = v1" using b by simp
  have "visit fmt (FunctionDef name params body exported is_default) v =
          Inr (emit [] (emit_export_bindings name exported is_default v4))"
    unfolding visit.simps Let_def v1_def [symmetric]
    using b d e by (auto simp: v3_def)
  moreover have "em_stream (emitter v3) =
      em_stream (emitter v2)
      @ (if body = [] \<or> \<not> is_Return (last body)
         then indentation (em_indent (emitter v) + 1) @ ''return None'' @ [ch_newline] else [])"
    by (simp add: v3_def l2 indentation_def)
  ultimately show ?thesis
    by (simp add: export_bindings_stream l4 s4 indentation_def)
qed

text \<open>
  C4. When the body of a \<open>FunctionDef\<close> has been generated (the visitor is then \<open>v2\<close>),
  \<open>visit_function_def\<close> completes, and what it appends after the body is the line
  \<open>return None\<close>, one level deeper than the \<open>def\<close>, exactly when the body is empty or
  its last statement is not a \<open>Return\<close>; then the export bindings and the blank line.
  For an empty body the whole text is the \<open>def\<close> line, one \<open>return None\<close>, the export
  bindings and the blank line.
\<close>

theorem function_def_return_none:
  assumes "visit_all fmt body (indent (emit (''def '' @ name @ ''('' @ join params '', '' @ ''):'') v))
             = Inr v2"
  shows "(\<exists>v'. visit fmt (FunctionDef name params body exported is_default) v = Inr v' \<and>
           em_stream (emitter v') =
             em_stream (emitter v2)
             @ (if body = [] \<or> \<not> is_Return (last body)
                then indentation (em_indent (emitter v) + 1) @ ''return None'' @ [ch_newline]
                else [])
             @ export_lines (em_indent (emitter v)) name exported is_default
             @ indentation (em_indent (emitter v)) @ [ch_newline])
       \<and> (\<exists>v'. visit fmt (FunctionDef name params [] exported is_default) v = Inr v' \<and>
           em_stream (emitter v') =
             em_stream (emitter v)
             @ indentation (em_indent (emitter v)) @ ''def '' @ name @ ''('' @ join params '', ''
             @ ''):'' @ [ch_newline]
             @ indentation (em_indent (emitter v) + 1) @ ''return None'' @ [ch_newline]
             @ export_lines (em_indent (emitter v)) name exported is_default
             @ indentation (em_indent (emitter v)) @ [ch_newline])"
proof -
  have "visit_all fmt [] (indent (emit (''def '' @ name @ ''('' @ join params '', '' @ ''):'') v))
          = Inr (indent (emit (''def '' @ name @ ''('' @ join params '', '' @ ''):'') v))"
    by simp
  from function_def_general [OF this, of exported is_default]
  have "\<exists>v'. visit fmt (FunctionDef name params [] exported is_default) v = Inr v' \<and>
           em_stream (emitter v') =
             em_stream (emitter v)
             @ indentation (em_indent (emitter v)) @ ''def '' @ name @ ''('' @ join params '', ''
             @ ''):'' @ [ch_newline]
             @ indentation (em_indent (emitter v) + 1) @ ''return None'' @ [ch_newline]
             @ export_lines (em_indent (emitter v)) name exported is_default
             @ indentation (em_indent (emitter v)) @ [ch_newline]"
    by (simp add: indentation_def)
  with function_def_general [OF assms, of exported is_default] show ?thesis
    by blast
qed

theorem function_def_return_none_witness:
  "\<exists>v'. visit (\<lambda>d. d) (FunctionDef ''f'' [''a'', ''b''] [Return (Some (Name ''a''))] True False)
          new_py_visitor = Inr v' \<and>
        em_stream (emitter v') =
          ''def f(a, b):'' @ [ch_newline] @ ''    return a'' @ [ch_newline]
          @ ''__trif_exports__['' @ [ch_squote] @ ''f'' @ [ch_squote] @ ''] = f'' @ [ch_newline]
          @ [ch_newline]"
proof -
  obtain v2 where
    b: "visit_all (\<lambda>d. d) [Return (Some (Name ''a''))]
          (indent (emit (''def '' @ ''f'' @ ''('' @ join [''a'', ''b''] '', '' @ ''):'') new_py_visitor))
        = Inr v2"
    and s: "em_stream (emitter v2) = ''def f(a, b):'' @ [ch_newline] @ ''    return a'' @ [ch_newline]"
    by (simp add: visit_return_def new_py_visitor_def new_emitter_def eval_nat_numeral)
  from function_def_return_none [OF b, of True False] s show ?thesis
    by (simp add: export_lines_def indentation_def new_py_visitor_def new_emitter_def
        eval_nat_numeral)
qed


section \<open>The shape of the trees the parser builds\<close>

text \<open>
  \<open>spawn_ok\<close>: every \<open>Spawn\<close> node in the tree holds a \<open>Call\<close>. \<open>no_module\<close>: no \<open>Module\<close> node
  stands in a body.
\<close>

fun spawn_ok :: "'d node \<Rightarrow> bool" where
  "spawn_ok (Spawn c) = is_Call c"
| "spawn_ok (Module body) = list_all spawn_ok body"
| "spawn_ok (FunctionDef name params body exported is_default) = list_all spawn_ok body"
| "spawn_ok (IfStmt test body orelse) = (list_all spawn_ok body \<and> list_all spawn_ok orelse)"
| "spawn_ok (While test body) = list_all spawn_ok body"
| "spawn_ok (For var iterator body) = list_all spawn_ok body"
| "spawn_ok n = True"

fun no_module :: "'d node \<Rightarrow> bool" where
  "no_module (Module body) = False"
| "no_module (FunctionDef name params body exported is_default) = list_all no_module body"
| "no_module (IfStmt test body orelse) = (list_all no_module body \<and> list_all no_module orelse)"
| "no_module (While test body) = list_all no_module body"
| "no_module (For var iterator body) = list_all no_module body"
| "no_module n = True"

text \<open>The top of a node that \<open>parse_statement\<close> builds, its bodies being built by \<open>B\<close>.\<close>

fun built_from :: "('d node list \<Rightarrow> bool) \<Rightarrow> 'd node \<Rightarrow> bool" where
  "built_from B (Module body) = False"
| "built_from B (Spawn c) = is_Call c"
| "built_from B (FunctionDef name params body exported is_default) = B body"
| "built_from B (IfStmt test body orelse) = (B body \<and> (orelse = [] \<or> B orelse))"
| "built_from B (While test body) = B body"
| "built_from B (For var iterator body) = B body"
| "built_from B n = True"

definition block_of :: "(token list \<Rightarrow> 'd node list parse_result) \<Rightarrow> 'd node list \<Rightarrow> bool" where
  "block_of pb body = (\<exists>ts ts'. pb ts = Inr (body, ts'))"

lemma block_ofI: "pb ts = Inr (body, ts') \<Longrightarrow> block_of pb body"
  by (auto simp: block_of_def)

definition yields :: "('a \<Rightarrow> bool) \<Rightarrow> 'a parse_result \<Rightarrow> bool" where
  "yields P r = (case r of Inl e \<Rightarrow> True | Inr (x, ts') \<Rightarrow> P x)"

lemma yields_simps [simp]:
  "yields P (Inl e) = True"
  "yields P (Inr (x, ts')) = P x"
  by (simp_all add: yields_def)

lemma yieldsD: "yields P r \<Longrightarrow> r = Inr (x, ts') \<Longrightarrow> P x"
  by simp

lemma yields_bind:
  fixes m :: "'b parse_result"
  assumes "\<And>x ts1. m = Inr (x, ts1) \<Longrightarrow> yields P (f (x, ts1))"
  shows "yields P (bind m f)"
  using assms by (cases m) auto

lemma yields_bind_flag:
  fixes m :: "error + bool"
  assumes "\<And>b. yields P (f b)"
  shows "yields P (bind m f)"
  using assms by (cases m) auto

lemma yields_finish: "P stmt \<Longrightarrow> yields P (finish_statement stmt ts)"
  by (cases "optional_newline ts") (simp_all add: finish_statement_def)

lemmas yields_intros = yields_bind yields_bind_flag yields_finish

lemma parse_import_statement_form: "yields (built_from B) (parse_import_statement n ts)"
  unfolding parse_import_statement_def
  by (auto intro!: yields_intros)

lemma parse_variable_statement_form:
  "yields (built_from B) (parse_variable_statement stod n mf ex df ts)"
  unfolding parse_variable_statement_def
  by (auto intro!: yields_intros)

lemma parse_function_statement_form:
  "yields (built_from (block_of pb)) (parse_function_statement pb n ex df ts)"
  unfolding parse_function_statement_def
  by (auto intro!: yields_intros intro: block_ofI)

lemma parse_export_statement_form:
  "yields (built_from (block_of pb)) (parse_export_statement stod pb n ts)"
  unfolding parse_export_statement_def
  by (auto split: list.splits
        intro!: yields_intros parse_function_statement_form parse_variable_statement_form)

lemma yields_then_finish:
  fixes m :: "'d node parse_result"
  assumes "yields P m"
  shows "yields P (bind m (\<lambda>(stmt, ts1). finish_statement stmt ts1))"
  using assms by (cases m) (auto intro: yields_finish)

lemma parse_statement_yields:
  "yields (built_from (block_of pb)) (parse_statement stod pb n ts)"
proof (cases ts)
  case Nil
  then show ?thesis by (simp add: parse_statement_def)
next
  case (Cons tok rest)
  note ts = Cons
  consider (kw) "tok_type tok \<in> set [''IMPORT'', ''EXPORT'']"
    | (decl) "tok_type tok \<in> set [''LET'', ''CONST'', ''FN'', ''FUNCTION'']"
    | (ret) "tok_type tok = ''RETURN''"
    | (ctl) "tok_type tok \<in> set [''IF'', ''WHILE'', ''FOR'', ''SPAWN'']"
    | (other) "tok_type tok \<notin> set [''IMPORT'', ''EXPORT'', ''LET'', ''CONST'', ''FN'', ''FUNCTION'',
         ''RETURN'', ''IF'', ''WHILE'', ''FOR'', ''SPAWN'']"
    by auto
  then show ?thesis
  proof cases
    case kw
    with ts show ?thesis
      unfolding parse_statement_def
      by (auto intro!: yields_then_finish parse_import_statement_form parse_export_statement_form)
  next
    case decl
    with ts show ?thesis
      unfolding parse_statement_def
      by (auto intro!: yields_then_finish parse_variable_statement_form
            parse_function_statement_form)
  next
    case ret
    with ts show ?thesis
      unfolding parse_statement_def
      by (auto split: list.splits intro!: yields_intros)
  next
    case ctl
    with ts show ?thesis
      unfolding parse_statement_def
      by (auto intro!: yields_intros simp: block_of_def split: if_splits) blast+
  next
    case other
    with ts show ?thesis
      unfolding parse_statement_def
      by (auto intro!: yields_intros)
  qed
qed

lemmas parse_statement_form = yieldsD [OF parse_statement_yields]

lemma block_loop_all:
  assumes ps: "\<And>ts s ts'. ps ts = Inr (s, ts') \<Longrightarrow> P s"
  shows "block_loop ps n acc ts = Inr (body, ts') \<Longrightarrow> list_all P acc \<Longrightarrow> list_all P body"
proof (induction n arbitrary: acc ts)
  case 0
  then show ?case by simp
next
  case (Suc n)
  from Suc.prems(1) obtain tok rest where ts: "ts = tok # rest" by (cases ts) auto
  consider (stop) "tok_type tok = ''RBRACE''"
    | (skip) "tok_type tok \<noteq> ''RBRACE''" "tok_type tok = ''NEWLINE'' \<or> tok_type tok = ''SEMICOLON''"
    | (stmt) "tok_type tok \<noteq> ''RBRACE''" "tok_type tok \<noteq> ''NEWLINE''" "tok_type tok \<noteq> ''SEMICOLON''"
    by blast
  then show ?case
  proof cases
    case stop
    with Suc.prems ts show ?thesis by simp
  next
    case skip
    with Suc.prems(1) ts have "block_loop ps n acc rest = Inr (body, ts')" by auto
    from Suc.IH [OF this Suc.prems(2)] show ?thesis .
  next
    case stmt
    with Suc.prems(1) ts obtain s ts1 where s: "ps ts = Inr (s, ts1)"
      and l: "block_loop ps n (acc @ [s]) ts1 = Inr (body, ts')"
      by (auto simp: bind_eq_Inr)
    from ps [OF s] Suc.prems(2) have "list_all P (acc @ [s])" by simp
    from Suc.IH [OF l this] show ?thesis .
  qed
qed

lemma module_loop_all:
  assumes ps: "\<And>ts s ts'. ps ts = Inr (s, ts') \<Longrightarrow> P s"
  shows "module_loop ps n acc ts = Inr body \<Longrightarrow> list_all P acc \<Longrightarrow> list_all P body"
proof (induction n arbitrary: acc ts)
  case 0
  then show ?case by simp
next
  case (Suc n)
  from Suc.prems(1) obtain tok rest where ts: "ts = tok # rest" by (cases ts) auto
  consider (stop) "tok_type tok = ''EOF''"
    | (skip) "tok_type tok \<noteq> ''EOF''" "tok_type tok = ''NEWLINE'' \<or> tok_type tok = ''SEMICOLON''"
    | (stmt) "tok_type tok \<noteq> ''EOF''" "tok_type tok \<noteq> ''NEWLINE''" "tok_type tok \<noteq> ''SEMICOLON''"
    by blast
  then show ?case
  proof cases
    case stop
    with Suc.prems ts show ?thesis by simp
  next
    case skip
    with Suc.prems(1) ts have "module_loop ps n acc rest = Inr body" by auto
    from Suc.IH [OF this Suc.prems(2)] show ?thesis .
  next
    case stmt
    with Suc.prems(1) ts obtain s ts1 where s: "ps ts = Inr (s, ts1)"
      and l: "module_loop ps n (acc @ [s]) ts1 = Inr body"
      by (auto simp: bind_eq_Inr)
    from ps [OF s] Suc.prems(2) have "list_all P (acc @ [s])" by simp
    from Suc.IH [OF l this] show ?thesis .
  qed
qed

lemma parse_block_all:
  assumes closed: "\<And>B s. built_from B s \<Longrightarrow> (\<And>b. B b \<Longrightarrow> list_all P b) \<Longrightarrow> P s"
  shows "parse_block stod n ts = Inr (body, ts') \<Longrightarrow> list_all P body"
proof (induction n arbitrary: ts body ts')
  case 0
  then show ?case by simp
next
  case (Suc n)
  have blocks: "list_all P b" if "block_of (parse_block stod n) b" for b
    using that Suc.IH by (auto simp: block_of_def)
  have ps: "P s" if "parse_statement stod (parse_block stod n) n ts0 = Inr (s, ts1)" for ts0 s ts1
    using closed [OF parse_statement_form [OF that] blocks] .
  from Suc.prems obtain ts1 ts2 where
    "block_loop (parse_statement stod (parse_block stod n) n) n [] ts1 = Inr (body, ts2)"
    by (auto simp: bind_eq_Inr)
  from block_loop_all [where P = P, OF ps this] show ?case by simp
qed

lemma parse_all:
  assumes closed: "\<And>B s. built_from B s \<Longrightarrow> (\<And>b. B b \<Longrightarrow> list_all P b) \<Longrightarrow> P s"
    and p: "parse stod ts = Inr body"
  shows "list_all P body"
proof -
  have blocks: "list_all P b" if "block_of (parse_block stod k) b" for b k
    using that parse_block_all [where P = P, OF closed] by (auto simp: block_of_def)
  have ps: "P s"
    if "parse_statement stod (parse_block stod (Suc (length ts))) (Suc (length ts)) ts0 = Inr (s, ts1)"
    for ts0 s ts1
    using closed [OF parse_statement_form [OF that] blocks] .
  from p have "module_loop (parse_statement stod (parse_block stod (Suc (length ts))) (Suc (length ts)))
      (Suc (length ts)) [] ts = Inr body"
    by (simp add: parse_def parse_with_def)
  from module_loop_all [where P = P, OF ps this] show ?thesis by simp
qed

lemma spawn_ok_closed: "built_from B s \<Longrightarrow> (\<And>b. B b \<Longrightarrow> list_all spawn_ok b) \<Longrightarrow> spawn_ok s"
  by (cases s) auto

lemma no_module_closed: "built_from B s \<Longrightarrow> (\<And>b. B b \<Longrightarrow> list_all no_module b) \<Longrightarrow> no_module s"
  by (cases s) auto

lemma parse_spawn_ok:
  assumes "parse stod ts = Inr body"
  shows "list_all spawn_ok body"
proof (rule parse_all [OF _ assms])
  fix B and s :: "'a node"
  assume "built_from B s" and "\<And>b. B b \<Longrightarrow> list_all spawn_ok b"
  then show "spawn_ok s" by (rule spawn_ok_closed)
qed

lemma parse_no_module:
  assumes "parse stod ts = Inr body"
  shows "list_all no_module body"
proof (rule parse_all [OF _ assms])
  fix B and s :: "'a node"
  assume "built_from B s" and "\<And>b. B b \<Longrightarrow> list_all no_module b"
  then show "no_module s" by (rule no_module_closed)
qed

text \<open>
  C3. In every tree that \<open>parse\<close> returns, every \<open>Spawn\<close> node holds a \<open>Call\<close>; and
  \<open>parse_statement\<close>, at a \<open>SPAWN\<close> token whose expression is parsed and is not a
  \<open>Call\<close>, throws \<open>spawn expects a function call\<close>.
\<close>

theorem spawn_holds_call:
  "(parse stod ts = Inr body \<longrightarrow> list_all spawn_ok body) \<and>
   (tok_type tok = ''SPAWN'' \<and> parse_expression stod n rest = Inr (e, ts1) \<and> \<not> is_Call e \<longrightarrow>
      parse_statement stod pb n (tok # rest) = Inl (Exception ''spawn expects a function call''))"
proof -
  have "parse_statement stod pb n (tok # rest) = Inl (Exception ''spawn expects a function call'')"
    if "tok_type tok = ''SPAWN''" "parse_expression stod n rest = Inr (e, ts1)" "\<not> is_Call e"
    using that by (simp add: parse_statement_def)
  then show ?thesis
    using parse_spawn_ok [of stod ts body] by blast
qed


section \<open>The parser consumes tokens and stops\<close>

text \<open>
  \<open>has_eof\<close>: an \<open>EOF\<close> token is among the tokens left. \<open>thrown\<close>: the failure is a C++
  exception, not a read past the end of the token vector and not an exhausted budget.
  \<open>ok L r\<close>: the step \<open>r\<close> threw, or returned with fewer than \<open>L\<close> tokens left, an \<open>EOF\<close>
  among them.
\<close>

definition has_eof :: "token list \<Rightarrow> bool" where
  "has_eof ts = list_ex (\<lambda>t. tok_type t = ''EOF'') ts"

fun thrown :: "error \<Rightarrow> bool" where
  "thrown (Exception m) = True"
| "thrown e = False"

definition ok :: "nat \<Rightarrow> 'a parse_result \<Rightarrow> bool" where
  "ok L r = (case r of Inl e \<Rightarrow> thrown e | Inr (x, ts') \<Rightarrow> has_eof ts' \<and> length ts' < L)"

lemma has_eof_simps [simp]:
  "has_eof [] = False"
  "has_eof (t # ts) = (tok_type t = ''EOF'' \<or> has_eof ts)"
  by (simp_all add: has_eof_def)

lemma ok_simps [simp]:
  "ok L (Inl e) = thrown e"
  "ok L (Inr (x, ts')) = (has_eof ts' \<and> length ts' < L)"
  by (simp_all add: ok_def)

lemma thrown_expected [simp]: "thrown (expected_error e t)"
  by (simp add: expected_error_def)

lemma bind_if: "bind (if c then a else b) f = (if c then bind a f else bind b f)"
  by simp

lemma ok_mono: "ok L' r \<Longrightarrow> L' \<le> L \<Longrightarrow> ok L r"
  by (auto simp: ok_def split: sum.splits)

lemma ok_bind:
  assumes "ok L1 m"
    and "\<And>x ts1. has_eof ts1 \<Longrightarrow> length ts1 < L1 \<Longrightarrow> ok L (f (x, ts1))"
  shows "ok L (bind m f)"
proof (cases m)
  case (Inl e)
  with assms(1) show ?thesis by simp
next
  case (Inr p)
  obtain x ts1 where "p = (x, ts1)" by (cases p)
  with Inr assms(1) assms(2) [of ts1 x] show ?thesis by simp
qed

lemma ok_consume:
  assumes "has_eof ts" "expected \<noteq> ''EOF''" "expected \<noteq> []"
    and "\<And>t ts1. has_eof ts1 \<Longrightarrow> length ts1 < length ts \<Longrightarrow> ok L (f (t, ts1))"
  shows "ok L (bind (consume expected ts) f)"
  using assms by (cases ts) (auto simp: consume_def)

lemma ok_match:
  assumes "has_eof ts" "ty \<noteq> ''EOF''"
    and "\<And>ts1. has_eof ts1 \<Longrightarrow> length ts1 < length ts \<Longrightarrow> ok L (f (True, ts1))"
    and "ok L (f (False, ts))"
  shows "ok L (bind (match ty ts) f)"
  using assms by (cases ts) (auto simp: match_def)

lemma ok_current_is:
  assumes "has_eof ts"
    and "\<And>tok rest. ts = tok # rest \<Longrightarrow> ok L (f (tok_type tok = ty))"
  shows "ok L (bind (current_is ty ts) f)"
  using assms by (cases ts) (auto simp: current_is_def)

lemma ok_current_is_op:
  assumes "has_eof ts"
    and "\<And>tok rest. ts = tok # rest \<Longrightarrow> ok L (f (tok_type tok = ''OP'' \<and> tok_value tok \<in> set ops))"
  shows "ok L (bind (current_is_op ops ts) f)"
  using assms by (cases ts) (auto simp: current_is_op_def)

lemmas ok_intros = ok_consume ok_match ok_current_is ok_current_is_op

definition advancing :: "nat \<Rightarrow> (token list \<Rightarrow> 'a parse_result) \<Rightarrow> bool" where
  "advancing m p = (\<forall>ts. has_eof ts \<longrightarrow> length ts < m \<longrightarrow> ok (length ts) (p ts))"

lemma advancingD: "advancing m p \<Longrightarrow> has_eof ts \<Longrightarrow> length ts < m \<Longrightarrow> ok (length ts) (p ts)"
  by (simp add: advancing_def)

lemmas ok_call = ok_bind [OF advancingD]

lemma expression_list_ok:
  assumes pe: "advancing m pe"
  shows "has_eof ts \<Longrightarrow> length ts < m \<Longrightarrow> length ts < n \<Longrightarrow> ok (length ts) (expression_list pe n acc ts)"
proof (induction n arbitrary: acc ts)
  case 0
  then show ?case by simp
next
  case (Suc n)
  note ih = ok_mono [OF Suc.IH]
  from Suc.prems show ?case
    by (auto simp: bind_if intro!: ok_call [OF pe] ok_intros ih)
qed

lemma dict_pairs_ok:
  assumes pe: "advancing m pe"
  shows "has_eof ts \<Longrightarrow> length ts < m \<Longrightarrow> length ts < n \<Longrightarrow> ok (length ts) (dict_pairs pe n acc ts)"
proof (induction n arbitrary: acc ts)
  case 0
  then show ?case by simp
next
  case (Suc n)
  note ih = ok_mono [OF Suc.IH]
  from Suc.prems show ?case
    by (auto simp: bind_if intro!: ok_call [OF pe] ok_intros ih)
qed

lemma parse_primary_ok:
  assumes pe: "advancing m pe"
  shows "has_eof ts \<Longrightarrow> length ts \<le> m \<Longrightarrow> length ts < n \<Longrightarrow> ok (length ts) (parse_primary stod pe n ts)"
  unfolding parse_primary_def
  by (cases ts)
     (auto simp: bind_if split: option.splits
       intro!: ok_call [OF pe] ok_intros ok_bind [OF expression_list_ok [OF pe]]
         ok_bind [OF dict_pairs_ok [OF pe]])

lemma call_loop_ok:
  assumes pe: "advancing m pe"
  shows "has_eof ts \<Longrightarrow> length ts \<le> m \<Longrightarrow> length ts < n \<Longrightarrow> ok (Suc (length ts)) (call_loop pe n e ts)"
proof (induction n arbitrary: e ts)
  case 0
  then show ?case by simp
next
  case (Suc n)
  note ih = ok_mono [OF Suc.IH]
  from Suc.prems show ?case
    by (auto simp: bind_if intro!: ok_call [OF pe] ok_intros ih
          ok_bind [OF expression_list_ok [OF pe]])
qed

lemma parse_call_expression_ok:
  assumes pe: "advancing m pe"
  shows "has_eof ts \<Longrightarrow> length ts \<le> m \<Longrightarrow> length ts < n \<Longrightarrow>
    ok (length ts) (parse_call_expression stod pe n ts)"
  unfolding parse_call_expression_def
  by (auto intro!: ok_bind [OF parse_primary_ok [OF pe]] ok_mono [OF call_loop_ok [OF pe]])

lemma parse_unary_ok:
  assumes pe: "advancing m pe"
  shows "has_eof ts \<Longrightarrow> length ts \<le> m \<Longrightarrow> length ts < n \<Longrightarrow>
    ok (length ts) (parse_unary stod pe n ts)"
proof (induction n arbitrary: ts)
  case 0
  then show ?case by simp
next
  case (Suc n)
  note ih = ok_bind [OF Suc.IH]
  from Suc.prems show ?case
    by (auto simp: bind_if intro!: ok_intros ih ok_mono [OF parse_call_expression_ok [OF pe]])
qed

lemma factor_loop_ok:
  assumes pe: "advancing m pe"
  shows "has_eof ts \<Longrightarrow> length ts \<le> m \<Longrightarrow> length ts < n \<Longrightarrow>
    ok (Suc (length ts)) (factor_loop stod pe n e ts)"
proof (induction n arbitrary: e ts)
  case 0
  then show ?case by simp
next
  case (Suc n)
  note ih = ok_mono [OF Suc.IH]
  from Suc.prems show ?case
    by (auto simp: bind_if intro!: ok_intros ih ok_bind [OF parse_unary_ok [OF pe]])
qed

lemma parse_factor_ok:
  assumes pe: "advancing m pe"
  shows "has_eof ts \<Longrightarrow> length ts \<le> m \<Longrightarrow> length ts < n \<Longrightarrow>
    ok (length ts) (parse_factor stod pe n ts)"
  unfolding parse_factor_def
  by (auto intro!: ok_bind [OF parse_unary_ok [OF pe]] ok_mono [OF factor_loop_ok [OF pe]])

lemma term_loop_ok:
  assumes pe: "advancing m pe"
  shows "has_eof ts \<Longrightarrow> length ts \<le> m \<Longrightarrow> length ts < n \<Longrightarrow>
    ok (Suc (length ts)) (term_loop stod pe n e ts)"
proof (induction n arbitrary: e ts)
  case 0
  then show ?case by simp
next
  case (Suc n)
  note ih = ok_mono [OF Suc.IH]
  from Suc.prems show ?case
    by (auto simp: bind_if intro!: ok_intros ih ok_bind [OF parse_factor_ok [OF pe]])
qed

lemma parse_term_ok:
  assumes pe: "advancing m pe"
  shows "has_eof ts \<Longrightarrow> length ts \<le> m \<Longrightarrow> length ts < n \<Longrightarrow>
    ok (length ts) (parse_term stod pe n ts)"
  unfolding parse_term_def
  by (auto intro!: ok_bind [OF parse_factor_ok [OF pe]] ok_mono [OF term_loop_ok [OF pe]])

lemma comparison_loop_ok:
  assumes pe: "advancing m pe"
  shows "has_eof ts \<Longrightarrow> length ts \<le> m \<Longrightarrow> length ts < n \<Longrightarrow>
    ok (Suc (length ts)) (comparison_loop stod pe n e ts)"
proof (induction n arbitrary: e ts)
  case 0
  then show ?case by simp
next
  case (Suc n)
  note ih = ok_mono [OF Suc.IH]
  from Suc.prems show ?case
    by (auto simp: bind_if intro!: ok_intros ih ok_bind [OF parse_term_ok [OF pe]])
qed

lemma parse_comparison_ok:
  assumes pe: "advancing m pe"
  shows "has_eof ts \<Longrightarrow> length ts \<le> m \<Longrightarrow> length ts < n \<Longrightarrow>
    ok (length ts) (parse_comparison stod pe n ts)"
  unfolding parse_comparison_def
  by (auto intro!: ok_bind [OF parse_term_ok [OF pe]] ok_mono [OF comparison_loop_ok [OF pe]])

lemma equality_loop_ok:
  assumes pe: "advancing m pe"
  shows "has_eof ts \<Longrightarrow> length ts \<le> m \<Longrightarrow> length ts < n \<Longrightarrow>
    ok (Suc (length ts)) (equality_loop stod pe n e ts)"
proof (induction n arbitrary: e ts)
  case 0
  then show ?case by simp
next
  case (Suc n)
  note ih = ok_mono [OF Suc.IH]
  from Suc.prems show ?case
    by (auto simp: bind_if intro!: ok_intros ih ok_bind [OF parse_comparison_ok [OF pe]])
qed

lemma parse_equality_ok:
  assumes pe: "advancing m pe"
  shows "has_eof ts \<Longrightarrow> length ts \<le> m \<Longrightarrow> length ts < n \<Longrightarrow>
    ok (length ts) (parse_equality stod pe n ts)"
  unfolding parse_equality_def
  by (auto intro!: ok_bind [OF parse_comparison_ok [OF pe]] ok_mono [OF equality_loop_ok [OF pe]])

lemma and_loop_ok:
  assumes pe: "advancing m pe"
  shows "has_eof ts \<Longrightarrow> length ts \<le> m \<Longrightarrow> length ts < n \<Longrightarrow>
    ok (Suc (length ts)) (and_loop stod pe n e ts)"
proof (induction n arbitrary: e ts)
  case 0
  then show ?case by simp
next
  case (Suc n)
  note ih = ok_mono [OF Suc.IH]
  from Suc.prems show ?case
    by (auto simp: bind_if intro!: ok_intros ih ok_bind [OF parse_equality_ok [OF pe]])
qed

lemma parse_and_ok:
  assumes pe: "advancing m pe"
  shows "has_eof ts \<Longrightarrow> length ts \<le> m \<Longrightarrow> length ts < n \<Longrightarrow>
    ok (length ts) (parse_and stod pe n ts)"
  unfolding parse_and_def
  by (auto intro!: ok_bind [OF parse_equality_ok [OF pe]] ok_mono [OF and_loop_ok [OF pe]])

lemma or_loop_ok:
  assumes pe: "advancing m pe"
  shows "has_eof ts \<Longrightarrow> length ts \<le> m \<Longrightarrow> length ts < n \<Longrightarrow>
    ok (Suc (length ts)) (or_loop stod pe n e ts)"
proof (induction n arbitrary: e ts)
  case 0
  then show ?case by simp
next
  case (Suc n)
  note ih = ok_mono [OF Suc.IH]
  from Suc.prems show ?case
    by (auto simp: bind_if intro!: ok_intros ih ok_bind [OF parse_and_ok [OF pe]])
qed

lemma parse_or_ok:
  assumes pe: "advancing m pe"
  shows "has_eof ts \<Longrightarrow> length ts \<le> m \<Longrightarrow> length ts < n \<Longrightarrow>
    ok (length ts) (parse_or stod pe n ts)"
  unfolding parse_or_def
  by (auto intro!: ok_bind [OF parse_and_ok [OF pe]] ok_mono [OF or_loop_ok [OF pe]])

lemma parse_expression_advancing: "advancing n (parse_expression stod n)"
proof (induction n)
  case 0
  show ?case by (simp add: advancing_def)
next
  case (Suc n)
  show ?case
    unfolding advancing_def
    by (auto intro!: parse_or_ok [OF Suc])
qed

lemmas parse_expression_ok = advancingD [OF parse_expression_advancing]

lemma ok_peek_is:
  assumes "has_eof rest" and "\<And>b. ok L (f b)"
  shows "ok L (bind (peek_is ty (tok # rest)) f)"
  using assms by (cases rest) (auto simp: peek_is_def)

lemma bind_assoc: "bind (bind m g) f = bind m (\<lambda>x. bind (g x) f)"
  by (cases m) simp_all

lemma consume_any [simp]: "consume [] (tok # rest) = Inr (tok, rest)"
  by (simp add: consume_def)

lemma optional_newline_ok:
  "has_eof ts \<Longrightarrow> \<exists>ts'. optional_newline ts = Inr ts' \<and> has_eof ts' \<and> length ts' \<le> length ts"
  by (induction ts) auto

lemma finish_statement_ok:
  "has_eof ts \<Longrightarrow> length ts < L \<Longrightarrow> ok L (finish_statement stmt ts)"
  using optional_newline_ok [of ts] by (auto simp: finish_statement_def)

lemma dotted_name_loop_ok:
  "has_eof ts \<Longrightarrow> length ts < n \<Longrightarrow> ok (Suc (length ts)) (dotted_name_loop n r ts)"
proof (induction n arbitrary: r ts)
  case 0
  then show ?case by simp
next
  case (Suc n)
  note ih = ok_mono [OF Suc.IH]
  from Suc.prems show ?case
    by (auto simp: bind_if bind_assoc intro!: ok_intros ih)
qed

lemma parse_dotted_name_ok:
  "has_eof ts \<Longrightarrow> length ts < n \<Longrightarrow> ok (length ts) (parse_dotted_name n ts)"
  unfolding parse_dotted_name_def
  by (auto intro!: ok_intros ok_mono [OF dotted_name_loop_ok])

lemma parse_module_specifier_ok:
  "has_eof ts \<Longrightarrow> length ts < n \<Longrightarrow> ok (length ts) (parse_module_specifier n ts)"
  unfolding parse_module_specifier_def
  by (auto simp: bind_if bind_assoc intro!: ok_intros ok_mono [OF parse_dotted_name_ok])

lemma specifier_loop_ok:
  "has_eof ts \<Longrightarrow> length ts < n \<Longrightarrow> ok (Suc (length ts)) (specifier_loop n names ts)"
proof (induction n arbitrary: names ts)
  case 0
  then show ?case by simp
next
  case (Suc n)
  note ih = ok_mono [OF Suc.IH]
  from Suc.prems show ?case
    by (auto simp: bind_if bind_assoc intro!: ok_intros ih)
qed

lemma parse_import_specifiers_ok:
  "has_eof ts \<Longrightarrow> length ts < n \<Longrightarrow> ok (length ts) (parse_import_specifiers n ts)"
  unfolding parse_import_specifiers_def
  by (auto intro!: ok_intros ok_bind [OF specifier_loop_ok])

lemma parse_export_specifiers_ok:
  "has_eof ts \<Longrightarrow> length ts < n \<Longrightarrow> ok (length ts) (parse_export_specifiers n ts)"
  unfolding parse_export_specifiers_def
  by (auto intro!: ok_intros ok_bind [OF specifier_loop_ok])

lemma optional_alias_ok:
  "has_eof ts \<Longrightarrow> ok (Suc (length ts)) (optional_alias ts)"
  unfolding optional_alias_def
  by (auto simp: bind_if bind_assoc intro!: ok_intros)

lemma import_bindings_ok:
  "has_eof ts \<Longrightarrow> length ts < n \<Longrightarrow> ok (Suc (length ts)) (import_bindings n ts)"
  unfolding import_bindings_def
  by (auto simp: bind_if bind_assoc intro!: ok_intros ok_peek_is ok_bind [OF parse_import_specifiers_ok])

lemma parse_import_statement_ok:
  "has_eof ts \<Longrightarrow> length ts < n \<Longrightarrow> ok (length ts) (parse_import_statement n ts)"
  unfolding parse_import_statement_def
  by (auto simp: bind_if bind_assoc intro!: ok_intros ok_bind [OF import_bindings_ok]
        ok_bind [OF parse_module_specifier_ok] ok_bind [OF optional_alias_ok])

lemma parse_variable_statement_ok:
  "has_eof ts \<Longrightarrow> length ts < n \<Longrightarrow>
    ok (length ts) (parse_variable_statement stod n mf ex df ts)"
  unfolding parse_variable_statement_def
  by (auto simp: bind_if bind_assoc intro!: ok_intros ok_bind [OF parse_expression_ok])

lemma params_loop_ok:
  "has_eof ts \<Longrightarrow> length ts < n \<Longrightarrow> ok (length ts) (params_loop n ps ts)"
proof (induction n arbitrary: ps ts)
  case 0
  then show ?case by simp
next
  case (Suc n)
  note ih = ok_mono [OF Suc.IH]
  from Suc.prems show ?case
    by (auto simp: bind_if bind_assoc intro!: ok_intros ih)
qed

lemma parse_function_statement_ok:
  assumes pb: "advancing m pb"
  shows "has_eof rest \<Longrightarrow> length rest < m \<Longrightarrow> length rest < n \<Longrightarrow>
    ok (Suc (length rest)) (parse_function_statement pb n ex df (tok # rest))"
  unfolding parse_function_statement_def
  by (auto simp: bind_if bind_assoc intro!: ok_intros ok_bind [OF params_loop_ok] ok_call [OF pb])

lemma parse_export_statement_ok:
  assumes pb: "advancing m pb"
  shows "has_eof ts \<Longrightarrow> length ts \<le> m \<Longrightarrow> length ts < n \<Longrightarrow>
    ok (length ts) (parse_export_statement stod pb n ts)"
  unfolding parse_export_statement_def
  by (auto simp: bind_if bind_assoc split: list.splits
        intro!: ok_intros ok_mono [OF parse_function_statement_ok [OF pb]]
          ok_mono [OF parse_variable_statement_ok] ok_bind [OF parse_expression_ok]
          ok_bind [OF parse_export_specifiers_ok] ok_bind [OF parse_module_specifier_ok])

lemma parse_statement_ok:
  assumes pb: "advancing m pb"
  shows "has_eof ts \<Longrightarrow> length ts \<le> m \<Longrightarrow> length ts < n \<Longrightarrow>
    ok (length ts) (parse_statement stod pb n ts)"
proof -
  assume a: "has_eof ts" "length ts \<le> m" "length ts < n"
  then obtain tok rest where ts: "ts = tok # rest" by (cases ts) auto
  note rules = ok_intros ok_bind [OF parse_function_statement_ok [OF pb]]
          ok_bind [OF parse_import_statement_ok] ok_bind [OF parse_export_statement_ok [OF pb]]
          ok_bind [OF parse_variable_statement_ok] ok_bind [OF parse_expression_ok]
          ok_call [OF pb] finish_statement_ok
  consider (kw) "tok_type tok \<in> set [''IMPORT'', ''EXPORT'']"
    | (decl) "tok_type tok \<in> set [''LET'', ''CONST'', ''FN'', ''FUNCTION'']"
    | (ret) "tok_type tok = ''RETURN''"
    | (ctl) "tok_type tok \<in> set [''IF'', ''WHILE'', ''FOR'', ''SPAWN'']"
    | (other) "tok_type tok \<notin> set [''IMPORT'', ''EXPORT'', ''LET'', ''CONST'', ''FN'', ''FUNCTION'',
         ''RETURN'', ''IF'', ''WHILE'', ''FOR'', ''SPAWN'']"
    by auto
  then show ?thesis
  proof cases
    case kw
    with a ts show ?thesis
      unfolding parse_statement_def
      by (auto simp: bind_if bind_assoc intro!: rules)
  next
    case decl
    with a ts show ?thesis
      unfolding parse_statement_def
      by (auto simp: bind_if bind_assoc intro!: rules)
  next
    case ret
    with a ts show ?thesis
      unfolding parse_statement_def
      by (auto simp: bind_if bind_assoc split: list.splits intro!: rules)
  next
    case ctl
    with a ts show ?thesis
      unfolding parse_statement_def
      by (auto simp: bind_if bind_assoc intro!: rules)
  next
    case other
    with a ts show ?thesis
      unfolding parse_statement_def
      by (auto simp: bind_if bind_assoc intro!: rules)
  qed
qed

lemma block_loop_ok:
  assumes ps: "advancing m ps"
  shows "has_eof ts \<Longrightarrow> length ts < m \<Longrightarrow> length ts < n \<Longrightarrow>
    ok (Suc (length ts)) (block_loop ps n body ts)"
proof (induction n arbitrary: body ts)
  case 0
  then show ?case by simp
next
  case (Suc n)
  note ih = ok_mono [OF Suc.IH]
  from Suc.prems show ?case
    by (cases ts) (auto simp: bind_if bind_assoc intro!: ok_intros ih ok_call [OF ps])
qed

lemma parse_statement_advancing:
  "advancing n pb \<Longrightarrow> advancing n (parse_statement stod pb n)"
  unfolding advancing_def [of n "parse_statement stod pb n"]
  by (auto intro!: parse_statement_ok)

lemma parse_block_advancing: "advancing n (parse_block stod n)"
proof (induction n)
  case 0
  show ?case by (simp add: advancing_def)
next
  case (Suc n)
  note ps = parse_statement_advancing [OF Suc, of stod]
  show ?case
    unfolding advancing_def
    by (auto intro!: ok_intros ok_bind [OF block_loop_ok [OF ps]])
qed

lemma module_loop_ok:
  assumes ps: "advancing m ps"
  shows "has_eof ts \<Longrightarrow> length ts < m \<Longrightarrow> length ts < n \<Longrightarrow>
     (\<exists>body'. module_loop ps n body ts = Inr body') \<or>
     (\<exists>msg. module_loop ps n body ts = Inl (Exception msg))"
proof (induction n arbitrary: body ts)
  case 0
  then show ?case by simp
next
  case (Suc n)
  from Suc.prems obtain tok rest where ts: "ts = tok # rest" by (cases ts) auto
  show ?case
  proof (cases "tok_type tok = ''EOF'' \<or> tok_type tok = ''NEWLINE'' \<or> tok_type tok = ''SEMICOLON''")
    case True
    with Suc.prems ts Suc.IH [of rest body] show ?thesis by auto
  next
    case False
    from advancingD [OF ps Suc.prems(1,2)] have o: "ok (length ts) (ps ts)" .
    show ?thesis
    proof (cases "ps ts")
      case (Inl e)
      with o obtain msg where "e = Exception msg" by (cases e) auto
      with Inl False ts show ?thesis by simp
    next
      case (Inr p)
      obtain stmt ts1 where p: "p = (stmt, ts1)" by (cases p)
      with Inr o have "has_eof ts1" "length ts1 < length ts" by auto
      with Suc.prems Suc.IH [of ts1 "body @ [stmt]"] Inr p False ts show ?thesis
        by auto
    qed
  qed
qed

lemma parse_ok:
  assumes "has_eof ts"
  shows "(\<exists>body. parse stod ts = Inr body) \<or> (\<exists>msg. parse stod ts = Inl (Exception msg))"
  unfolding parse_def parse_with_def
  by (rule module_loop_ok [OF parse_statement_advancing [OF parse_block_advancing]])
     (use assms in auto)


section \<open>Parsing concrete programs\<close>

lemmas parser_simps =
  parse_def parse_with_def parse_statement_def parse_export_statement_def
  parse_function_statement_def parse_variable_statement_def parse_import_statement_def
  import_bindings_def optional_alias_def parse_import_specifiers_def parse_export_specifiers_def
  parse_module_specifier_def parse_dotted_name_def finish_statement_def
  parse_or_def parse_and_def parse_equality_def parse_comparison_def parse_term_def
  parse_factor_def parse_call_expression_def parse_primary_def
  consume_def match_def current_is_def current_is_op_def peek_is_def mk_token_def

theorem spawn_holds_call_witness:
  "parse (\<lambda>s. Some s)
     [mk_token ''SPAWN'' ''spawn'' 1 1, mk_token ''NAME'' ''f'' 1 7, mk_token ''LPAREN'' ''('' 1 8,
      mk_token ''NUMBER'' ''1'' 1 9, mk_token ''RPAREN'' '')'' 1 10, mk_token ''EOF'' [] 1 11]
     = Inr [Spawn (Call (Name ''f'') [Number ''1''])] \<and>
   list_all spawn_ok [Spawn (Call (Name ''f'') [Number ''1'']) :: string node] \<and>
   tok_type (mk_token ''SPAWN'' ''spawn'' 1 1) = ''SPAWN'' \<and>
   parse_expression (\<lambda>s. Some s) (Suc (Suc (Suc 0)))
     [mk_token ''NAME'' ''f'' 1 7, mk_token ''EOF'' [] 1 8]
     = Inr (Name ''f'', [mk_token ''EOF'' [] 1 8]) \<and>
   \<not> is_Call (Name ''f'' :: string expr) \<and>
   parse_statement (\<lambda>s. Some s) (parse_block (\<lambda>s. Some s) 0) (Suc (Suc (Suc 0)))
     [mk_token ''SPAWN'' ''spawn'' 1 1, mk_token ''NAME'' ''f'' 1 7, mk_token ''EOF'' [] 1 8]
     = Inl (Exception ''spawn expects a function call'')"
proof -
  have p: "parse (\<lambda>s. Some s)
     [mk_token ''SPAWN'' ''spawn'' 1 1, mk_token ''NAME'' ''f'' 1 7, mk_token ''LPAREN'' ''('' 1 8,
      mk_token ''NUMBER'' ''1'' 1 9, mk_token ''RPAREN'' '')'' 1 10, mk_token ''EOF'' [] 1 11]
     = Inr [Spawn (Call (Name ''f'') [Number ''1''])]"
    by (simp add: parser_simps)
  have e: "parse_expression (\<lambda>s. Some s) (Suc (Suc (Suc 0)))
     [mk_token ''NAME'' ''f'' 1 7, mk_token ''EOF'' [] 1 8]
     = Inr (Name ''f'', [mk_token ''EOF'' [] 1 8])"
    by (simp add: parser_simps)
  have t: "tok_type (mk_token ''SPAWN'' ''spawn'' 1 1) = ''SPAWN''"
    by (simp add: mk_token_def)
  have c: "\<not> is_Call (Name ''f'' :: string expr)" by simp
  note w = spawn_holds_call [of "\<lambda>s. Some s"
      "[mk_token ''SPAWN'' ''spawn'' 1 1, mk_token ''NAME'' ''f'' 1 7, mk_token ''LPAREN'' ''('' 1 8,
        mk_token ''NUMBER'' ''1'' 1 9, mk_token ''RPAREN'' '')'' 1 10, mk_token ''EOF'' [] 1 11]"
      "[Spawn (Call (Name ''f'') [Number ''1''])]"
      "mk_token ''SPAWN'' ''spawn'' 1 1" "Suc (Suc (Suc 0))"
      "[mk_token ''NAME'' ''f'' 1 7, mk_token ''EOF'' [] 1 8]"
      "Name ''f''" "[mk_token ''EOF'' [] 1 8]" "parse_block (\<lambda>s. Some s) 0"]
  from w p have 1: "list_all spawn_ok [Spawn (Call (Name ''f'') [Number ''1'']) :: string node]"
    by blast
  from w t e c have 2: "parse_statement (\<lambda>s. Some s) (parse_block (\<lambda>s. Some s) 0) (Suc (Suc (Suc 0)))
     [mk_token ''SPAWN'' ''spawn'' 1 1, mk_token ''NAME'' ''f'' 1 7, mk_token ''EOF'' [] 1 8]
     = Inl (Exception ''spawn expects a function call'')"
    by blast
  from p 1 t e c 2 show ?thesis by blast
qed

section \<open>Termination of the parser\<close>

lemma last_eof_has_eof: "ts \<noteq> [] \<Longrightarrow> tok_type (last ts) = ''EOF'' \<Longrightarrow> has_eof ts"
  by (induction ts) (auto split: if_splits)

text \<open>
  C10. On a token stream that ends with an \<open>EOF\<close> token, \<open>parse\<close> returns the body of
  a module or throws an exception: with the budget \<open>parse\<close> starts from, the model
  neither runs out of budget nor reads past the end of the tokens. The reason is
  that, with that budget, \<open>parse_statement\<close> and \<open>parse_block\<close>, on any tokens that hold an
  \<open>EOF\<close> and are no more than the stream's, throw or return with strictly fewer tokens
  left, so that each iteration of the loops of \<open>parse\<close> and \<open>parse_block\<close> consumes a
  token or throws.
\<close>

theorem parse_terminates:
  assumes "ts \<noteq> []" and "tok_type (last ts) = ''EOF''"
  shows "((\<exists>body. parse stod ts = Inr body) \<or> (\<exists>msg. parse stod ts = Inl (Exception msg)))
       \<and> (\<forall>ts'. has_eof ts' \<and> length ts' \<le> length ts \<longrightarrow>
            ok (length ts')
              (parse_statement stod (parse_block stod (Suc (length ts))) (Suc (length ts)) ts'))
       \<and> (\<forall>ts'. has_eof ts' \<and> length ts' \<le> length ts \<longrightarrow>
            ok (length ts') (parse_block stod (Suc (length ts)) ts'))"
proof -
  from assms have "has_eof ts" by (rule last_eof_has_eof)
  then have "(\<exists>body. parse stod ts = Inr body) \<or> (\<exists>msg. parse stod ts = Inl (Exception msg))"
    by (rule parse_ok)
  moreover have "ok (length ts')
      (parse_statement stod (parse_block stod (Suc (length ts))) (Suc (length ts)) ts')"
    if "has_eof ts'" "length ts' \<le> length ts" for ts'
    using that by (intro parse_statement_ok [OF parse_block_advancing]) auto
  moreover have "ok (length ts') (parse_block stod (Suc (length ts)) ts')"
    if "has_eof ts'" "length ts' \<le> length ts" for ts'
    using that by (intro advancingD [OF parse_block_advancing]) auto
  ultimately show ?thesis by blast
qed

theorem parse_terminates_witness:
  "[mk_token ''LBRACE'' ''{'' 1 1, mk_token ''EOF'' [] 1 2] \<noteq> [] \<and>
   tok_type (last [mk_token ''LBRACE'' ''{'' 1 1, mk_token ''EOF'' [] 1 2]) = ''EOF'' \<and>
   parse (\<lambda>s. Some s) [mk_token ''LBRACE'' ''{'' 1 1, mk_token ''EOF'' [] 1 2]
     = (Inl (Exception ''Unexpected token EOF at line 1'') :: error + string node list) \<and>
   has_eof [mk_token ''EOF'' [] 1 2] \<and>
   length [mk_token ''EOF'' [] 1 2]
     \<le> length [mk_token ''LBRACE'' ''{'' 1 1, mk_token ''EOF'' [] 1 2] \<and>
   ok (length [mk_token ''EOF'' [] 1 2])
     (parse_block (\<lambda>s. Some s)
        (Suc (length [mk_token ''LBRACE'' ''{'' 1 1, mk_token ''EOF'' [] 1 2]))
        [mk_token ''EOF'' [] 1 2] :: string node list parse_result)"
proof -
  let ?T = "[mk_token ''LBRACE'' ''{'' 1 1, mk_token ''EOF'' [] 1 2]"
  let ?E = "[mk_token ''EOF'' [] 1 2]"
  have p: "parse (\<lambda>s. Some s) ?T
     = (Inl (Exception ''Unexpected token EOF at line 1'') :: error + string node list)"
    by (simp add: parser_simps to_string_def string_of_nat.simps)
  have h1: "?T \<noteq> []" by simp
  have h2: "tok_type (last ?T) = ''EOF''" by (simp add: mk_token_def)
  have h3: "has_eof ?E" by (simp add: mk_token_def)
  have h4: "length ?E \<le> length ?T" by simp
  from parse_terminates [OF h1 h2, of "\<lambda>s. Some s"]
  have "\<forall>ts'. has_eof ts' \<and> length ts' \<le> length ?T \<longrightarrow>
            ok (length ts') (parse_block (\<lambda>s. Some s) (Suc (length ?T)) ts'
                 :: string node list parse_result)"
    by blast
  with h3 h4 have "ok (length ?E) (parse_block (\<lambda>s. Some s) (Suc (length ?T)) ?E
                 :: string node list parse_result)"
    by blast
  with p h1 h2 h3 h4 show ?thesis by blast
qed


section \<open>Operator precedence, and return before a separator\<close>

lemma tokens_1: "tokenize ''1 + 2 * 3'' =
  Inr [mk_token ''NUMBER'' ''1'' 1 1, mk_token ''OP'' ''+'' 1 3, mk_token ''NUMBER'' ''2'' 1 5,
       mk_token ''OP'' ''*'' 1 7, mk_token ''NUMBER'' ''3'' 1 9, mk_token ''EOF'' [] 1 10]"
  by code_simp

lemma tokens_2: "tokenize ''a || b && c'' =
  Inr [mk_token ''NAME'' ''a'' 1 1, mk_token ''OP'' ''||'' 1 3, mk_token ''NAME'' ''b'' 1 6,
       mk_token ''OP'' ''&&'' 1 8, mk_token ''NAME'' ''c'' 1 11, mk_token ''EOF'' [] 1 12]"
  by code_simp

lemma tokens_3: "tokenize ''!!x'' =
  Inr [mk_token ''OP'' ''!'' 1 1, mk_token ''OP'' ''!'' 1 2, mk_token ''NAME'' ''x'' 1 3,
       mk_token ''EOF'' [] 1 4]"
  by code_simp

text \<open>
  C6. \<open>1 + 2 * 3\<close> parses as \<open>1 + (2 * 3)\<close>, \<open>a || b && c\<close> as \<open>a || (b && c)\<close> and \<open>!!x\<close> as
  \<open>!(!x)\<close>, whatever doubles \<open>std::stod\<close> gives for the three numerals.
\<close>

theorem operator_precedence:
  assumes "stod ''1'' = Some d1" and "stod ''2'' = Some d2" and "stod ''3'' = Some d3"
  shows "bind (tokenize ''1 + 2 * 3'') (parse stod) =
           Inr [Expr (BinaryOp (Number d1) ''+'' (BinaryOp (Number d2) ''*'' (Number d3)))]
       \<and> bind (tokenize ''a || b && c'') (parse stod) =
           Inr [Expr (BinaryOp (Name ''a'') ''||'' (BinaryOp (Name ''b'') ''&&'' (Name ''c'')))]
       \<and> bind (tokenize ''!!x'') (parse stod) =
           Inr [Expr (UnaryOp ''!'' (UnaryOp ''!'' (Name ''x'')))]"
proof -
  have a: "bind (tokenize ''1 + 2 * 3'') (parse stod) =
           Inr [Expr (BinaryOp (Number d1) ''+'' (BinaryOp (Number d2) ''*'' (Number d3)))]"
    using assms by (simp add: tokens_1 parser_simps)
  have b: "bind (tokenize ''a || b && c'') (parse stod) =
           Inr [Expr (BinaryOp (Name ''a'') ''||'' (BinaryOp (Name ''b'') ''&&'' (Name ''c'')))]"
    by (simp add: tokens_2 parser_simps)
  have c: "bind (tokenize ''!!x'') (parse stod) =
           Inr [Expr (UnaryOp ''!'' (UnaryOp ''!'' (Name ''x'')))]"
    by (simp add: tokens_3 parser_simps)
  from a b c show ?thesis by blast
qed

theorem operator_precedence_witness:
  "bind (tokenize ''1 + 2 * 3'') (parse (\<lambda>s. Some s)) =
           Inr [Expr (BinaryOp (Number ''1'') ''+'' (BinaryOp (Number ''2'') ''*'' (Number ''3'')))]"
  using operator_precedence [of "\<lambda>s. Some s" "''1''" "''2''" "''3''"] by simp

text \<open>
  C2 fails on the code at \<open>return\<close>: a \<open>NEWLINE\<close> after \<open>return\<close> ends the statement,
  a \<open>SEMICOLON\<close> in its place is handed to \<open>parse_expression\<close>, which throws.
\<close>

theorem return_semicolon:
  "bind (tokenize (''return'' @ [ch_newline])) (parse stod) = Inr [Return None] \<and>
   bind (tokenize ''return;'') (parse stod) =
     Inl (Exception ''Unexpected token SEMICOLON at line 1'')"
proof -
  have t1: "tokenize (''return'' @ [ch_newline]) =
    Inr [mk_token ''RETURN'' ''return'' 1 1, mk_token ''NEWLINE'' [ch_newline] 1 7,
         mk_token ''EOF'' [] 2 1]"
    by code_simp
  have t2: "tokenize ''return;'' =
    Inr [mk_token ''RETURN'' ''return'' 1 1, mk_token ''SEMICOLON'' '';'' 1 7,
         mk_token ''EOF'' [] 1 8]"
    by code_simp
  from t1 t2 show ?thesis
    by (simp add: parser_simps to_string_def string_of_nat.simps)
qed

section \<open>The lexer ends its tokens with EOF, or throws\<close>

definition lexed :: "error + token list \<Rightarrow> bool" where
  "lexed r = (case r of Inl e \<Rightarrow> thrown e | Inr ts \<Rightarrow> has_eof ts)"

lemma lexed_simps [simp]:
  "lexed (Inl e) = thrown e"
  "lexed (Inr ts) = has_eof ts"
  by (simp_all add: lexed_def)

lemma has_eof_append [simp]: "has_eof (xs @ ys) = (has_eof xs \<or> has_eof ys)"
  by (simp add: has_eof_def)

lemma find_str_bound: "find_str pat s = Some i \<Longrightarrow> pat \<noteq> [] \<Longrightarrow> i < length s"
  by (induction s arbitrary: i) (auto split: if_splits)

lemma tokenize_from_lexed: "lexed (tokenize_from r l c t)"
proof (induction "length r" arbitrary: r l c t rule: less_induct)
  case less
  have step: "lexed (tokenize_from (drop k r) l' c' t')" if "0 < k" "r \<noteq> []" for k l' c' t'
    using that by (intro less) (cases r, auto)
  note eq = tokenize_from.simps [of r l c t]
  show ?case
  proof (cases "r = []")
    case True
    then show ?thesis unfolding eq by (simp add: mk_token_def)
  next
    case False
    note ne = False
    show ?thesis
    proof (cases "take 2 r = ''/*''")
      case True
      then show ?thesis
        unfolding eq using ne
        by (cases "find_str ''*/'' r") (auto simp: Let_def intro!: step)
    next
      case False
      note nc = False
      show ?thesis
      proof (cases "first_match token_patterns r")
        case None
        with ne nc show ?thesis unfolding eq by simp
      next
        case (Some kv)
        obtain kind v where kv: "kv = (kind, v)" by (cases kv)
        with Some have "v \<noteq> []" by (auto dest: first_match_nonempty)
        with ne nc Some kv show ?thesis
          unfolding eq by (auto simp: Let_def intro!: step)
      qed
    qed
  qed
qed

lemma tokenize_has_eof: "tokenize s = Inr ts \<Longrightarrow> has_eof ts"
  using tokenize_from_lexed [of s 1 1 "[]"] by (simp add: tokenize_def)

lemma tokenize_thrown: "tokenize s = Inl e \<Longrightarrow> thrown e"
  using tokenize_from_lexed [of s 1 1 "[]"] by (simp add: tokenize_def)


section \<open>Every failure of a compilation is an exception\<close>

definition throws_only :: "error + 'a \<Rightarrow> bool" where
  "throws_only r = (case r of Inl e \<Rightarrow> thrown e | Inr x \<Rightarrow> True)"

lemma throws_only_simps [simp]:
  "throws_only (Inl e) = thrown e"
  "throws_only (Inr x) = True"
  by (simp_all add: throws_only_def)

lemma throws_only_bind:
  "throws_only m \<Longrightarrow> (\<And>x. throws_only (f x)) \<Longrightarrow> throws_only (bind m f)"
  by (cases m) simp_all

lemma throws_only_dedent [simp]: "throws_only (dedent v)"
  by (simp add: dedent_def em_dedent_def)

lemma throws_only_js_dedent [simp]: "throws_only (js_dedent v)"
  by (simp add: js_dedent_def em_dedent_def)

lemma visit_all_throws_only:
  "(\<And>n v. n \<in> set ns \<Longrightarrow> throws_only (visit fmt n v)) \<Longrightarrow> throws_only (visit_all fmt ns v)"
  by (induction ns arbitrary: v) (auto intro!: throws_only_bind)

lemma visit_throws_only: "throws_only (visit fmt n v)"
  by (induction n arbitrary: v)
     (auto simp: Let_def intro!: throws_only_bind visit_all_throws_only)

lemma js_visit_all_throws_only:
  "(\<And>n v. n \<in> set ns \<Longrightarrow> throws_only (js_visit fmt n v)) \<Longrightarrow>
    throws_only (js_visit_all fmt ns v)"
  by (induction ns arbitrary: v) (auto intro!: throws_only_bind)

lemma js_visit_throws_only: "throws_only (js_visit fmt n v)"
  by (induction n arbitrary: v)
     (auto simp: Let_def intro!: throws_only_bind js_visit_all_throws_only)

lemma python_generate_throws_only: "throws_only (python_generate fmt body)"
  unfolding python_generate_def py_visitor_generate_def py_prelude_def py_epilogue_def Let_def
  by (intro throws_only_bind visit_all_throws_only visit_throws_only) simp_all

lemma javascript_generate_throws_only: "throws_only (javascript_generate fmt body)"
  unfolding javascript_generate_def js_visitor_generate_def Let_def
  by (intro throws_only_bind js_visit_all_throws_only js_visit_throws_only) simp_all

lemma parse_throws_only: "has_eof ts \<Longrightarrow> throws_only (parse stod ts)"
  using parse_ok [of ts stod] by auto

lemma compile_pipeline_throws_only: "throws_only (compile_pipeline stod fmt source options)"
proof (cases "tokenize source")
  case (Inl e)
  then show ?thesis by (simp add: compile_pipeline_def tokenize_thrown)
next
  case (Inr ts)
  then have "has_eof ts" by (rule tokenize_has_eof)
  with Inr show ?thesis
    by (auto simp: compile_pipeline_def
          intro!: throws_only_bind parse_throws_only python_generate_throws_only
            javascript_generate_throws_only)
qed


section \<open>The error policy of the compiler, and determinism\<close>

text \<open>
  A failure of \<open>compile_source\<close> is a failure of its \<open>try\<close> block (lexer, parser,
  generator or unknown target), always a C++ exception, the first one thrown; its
  message is that exception's, unchanged when \<open>aggressive_errors\<close> is set and prefixed
  with \<open>Compilation failed: \<close> when it is not.
\<close>

lemma compile_source_error_policy:
  assumes "compile_source stod fmt source options = Inl e"
  shows "\<exists>what. compile_pipeline stod fmt source options = Inl (Exception what) \<and>
           e = Exception (if aggressive_errors options then what
                          else ''Compilation failed: '' @ what)"
proof (cases "compile_pipeline stod fmt source options")
  case (Inr r)
  with assms show ?thesis by (simp add: compile_source_def)
next
  case (Inl e')
  with compile_pipeline_throws_only [of stod fmt source options]
  obtain what where "e' = Exception what" by (cases e') auto
  with Inl assms show ?thesis by (auto simp: compile_source_def)
qed

text \<open>
  C1 fails on the code for the I/O error. \<open>compile_file\<close> throws
  \<open>Unable to open file: \<close> and the path before it calls \<open>compile_source\<close>, outside the
  \<open>try\<close> block that applies the policy: with \<open>aggressive_errors\<close> not set the message
  is not prefixed. A lexer error of a file that can be read, through the same
  \<open>compile_file\<close>, is prefixed when \<open>aggressive_errors\<close> is not set and unchanged when
  it is.
\<close>

theorem unreadable_input_not_wrapped:
  "compile_file (\<lambda>p. None) stod fmt ''in.trif'' \<lparr>target = ''python'', aggressive_errors = False\<rparr>
     = Inl (Exception ''Unable to open file: in.trif'') \<and>
   compile_file (\<lambda>p. Some ''@'') stod fmt ''in.trif''
       \<lparr>target = ''python'', aggressive_errors = False\<rparr>
     = Inl (Exception (''Compilation failed: Unexpected character '' @ [ch_squote] @ ''@''
                        @ [ch_squote] @ '' at line 1 column 1'')) \<and>
   compile_file (\<lambda>p. Some ''@'') stod fmt ''in.trif''
       \<lparr>target = ''python'', aggressive_errors = True\<rparr>
     = Inl (Exception (''Unexpected character '' @ [ch_squote] @ ''@''
                        @ [ch_squote] @ '' at line 1 column 1''))"
proof -
  have t: "tokenize ''@'' = Inl (Exception (''Unexpected character '' @ [ch_squote] @ ''@''
                        @ [ch_squote] @ '' at line 1 column 1''))"
    by code_simp
  then show ?thesis
    by (simp add: compile_file_def compile_source_def compile_pipeline_def)
qed




section \<open>The Python generator returns on what the parser builds\<close>

text \<open>The generator succeeds on a tree without \<open>Module\<close> nodes, at the level it started.\<close>

definition returns_at :: "nat \<Rightarrow> error + py_visitor \<Rightarrow> bool" where
  "returns_at k r = (\<exists>v'. r = Inr v' \<and> em_indent (emitter v') = k)"

lemma returns_at_Inr [simp]: "returns_at k (Inr v) = (em_indent (emitter v) = k)"
  by (auto simp: returns_at_def)

lemma returns_at_bind:
  "returns_at j m \<Longrightarrow> (\<And>x. em_indent (emitter x) = j \<Longrightarrow> returns_at k (f x)) \<Longrightarrow>
    returns_at k (bind m f)"
  by (auto simp: returns_at_def)

lemma returns_at_dedent: "em_indent (emitter v) = Suc k \<Longrightarrow> returns_at k (dedent v)"
  using dedent_Suc [of v k] by (auto simp: returns_at_def)

definition visits_return :: "('d \<Rightarrow> string) \<Rightarrow> 'd node list \<Rightarrow> bool" where
  "visits_return fmt ns =
     (\<forall>n \<in> set ns. \<forall>v. returns_at (em_indent (emitter v)) (visit fmt n v))"

lemma visit_all_returns:
  "visits_return fmt ns \<Longrightarrow> returns_at (em_indent (emitter v)) (visit_all fmt ns v)"
proof (induction ns arbitrary: v)
  case Nil
  show ?case by simp
next
  case (Cons n ns)
  from Cons.prems have n: "returns_at (em_indent (emitter v)) (visit fmt n v)"
    and ns: "visits_return fmt ns"
    by (simp_all add: visits_return_def)
  show ?case
    unfolding visit_all.simps
  proof (rule returns_at_bind [OF n])
    fix x :: py_visitor
    assume "em_indent (emitter x) = em_indent (emitter v)"
    with Cons.IH [OF ns, of x] show "returns_at (em_indent (emitter v)) (visit_all fmt ns x)"
      by simp
  qed
qed

lemma block_returns:
  assumes "visits_return fmt ns"
  shows "returns_at (Suc (em_indent (emitter u))) (visit_all fmt ns (indent u))"
  using visit_all_returns [OF assms, of "indent u"] by simp

lemma visit_returns: "no_module n \<Longrightarrow> returns_at (em_indent (emitter v)) (visit fmt n v)"
proof (induction n arbitrary: v)
  case (FunctionDef name params body exported is_default)
  then have b: "visits_return fmt body"
    by (simp add: list_all_iff visits_return_def)
  show ?case
    unfolding visit.simps Let_def
    by (rule returns_at_bind [where j = "Suc (em_indent (emitter v))"])
       (auto intro!: returns_at_bind [OF block_returns [OF b]] returns_at_bind [OF returns_at_dedent])
next
  case (IfStmt test body orelse)
  then have b: "visits_return fmt body" and c: "visits_return fmt orelse"
    by (simp_all add: list_all_iff visits_return_def)
  show ?case
    unfolding visit.simps Let_def
    apply (rule returns_at_bind [OF block_returns [OF b]])
    apply (rule returns_at_bind [OF returns_at_dedent])
     apply simp
    apply (auto intro!: returns_at_bind [OF block_returns [OF c]] returns_at_dedent)
    done
next
  case (While test body)
  then have b: "visits_return fmt body"
    by (simp add: list_all_iff visits_return_def)
  show ?case
    unfolding visit.simps Let_def
    by (auto intro!: returns_at_bind [OF block_returns [OF b]] returns_at_dedent)
next
  case (For var iterator body)
  then have b: "visits_return fmt body"
    by (simp add: list_all_iff visits_return_def)
  show ?case
    unfolding visit.simps Let_def
    by (auto intro!: returns_at_bind [OF block_returns [OF b]] returns_at_dedent)
qed simp_all

lemma python_generate_returns:
  assumes "list_all no_module body"
  shows "\<exists>text. python_generate fmt body = Inr text"
proof -
  obtain v1 where p: "py_prelude new_py_visitor = Inr v1" and l1: "em_indent (emitter v1) = 0"
    by (simp add: py_prelude_def Let_def new_py_visitor_def new_emitter_def dedent_def em_dedent_def
        indent_def emit_def em_emit_def em_do_indent_def)
  from assms have "visits_return fmt body"
    by (simp add: list_all_iff visits_return_def visit_returns)
  then have "returns_at (em_indent (emitter v1)) (visit_all fmt body v1)"
    by (rule visit_all_returns)
  then obtain v2 where b: "visit_all fmt body v1 = Inr v2" and l2: "em_indent (emitter v2) = 0"
    using l1 by (auto simp: returns_at_def)
  from l2 have "\<exists>v3. py_epilogue v2 = Inr v3"
    by (simp add: py_epilogue_def Let_def dedent_def em_dedent_def indent_def em_do_indent_def)
  with p b show ?thesis
    by (auto simp: python_generate_def py_visitor_generate_def)
qed


section \<open>The lines of the Python output\<close>

text \<open>The lines of a text, split at the newline characters.\<close>

fun split_lines :: "string \<Rightarrow> string list" where
  "split_lines [] = [[]]"
| "split_lines (c # cs) =
     (if c = ch_newline then [] # split_lines cs
      else (case split_lines cs of l # ls \<Rightarrow> (c # l) # ls | [] \<Rightarrow> [[c]]))"

definition leading_spaces :: "string \<Rightarrow> nat" where
  "leading_spaces l = length (takeWhile (\<lambda>c. c = CHR '' '') l)"

definition lines_ok :: "string \<Rightarrow> bool" where
  "lines_ok text = list_all (\<lambda>l. 4 dvd leading_spaces l) (split_lines text)"

definition no_nl :: "string \<Rightarrow> bool" where
  "no_nl t = (ch_newline \<notin> set t)"

definition clean_start :: "string \<Rightarrow> bool" where
  "clean_start t = (t \<noteq> [] \<and> hd t \<noteq> CHR '' '')"

text \<open>
  \<open>py_tame\<close>: the names, module strings and rendered expressions of a node that the
  Python generator writes into a line hold no newline; and those it writes at the start
  of a line (the target of an import, a bound name, the target of an assignment, an
  expression statement) are not empty and do not begin with a space.
\<close>

fun py_tame :: "('d \<Rightarrow> string) \<Rightarrow> 'd node \<Rightarrow> bool" where
  "py_tame fmt (Module body) = True"
| "py_tame fmt (Import module alias) =
     (no_nl module \<and> (case alias of Some a \<Rightarrow> clean_start a \<and> no_nl a | None \<Rightarrow> clean_start module))"
| "py_tame fmt (ImportFrom module names default_name namespace_name) =
     (no_nl module
      \<and> (case namespace_name of Some n \<Rightarrow> clean_start n \<and> no_nl n | None \<Rightarrow> True)
      \<and> (case default_name of Some n \<Rightarrow> clean_start n \<and> no_nl n | None \<Rightarrow> True)
      \<and> list_all (\<lambda>(source, alias). clean_start alias \<and> no_nl alias \<and> no_nl source) names)"
| "py_tame fmt (LetStmt name val mutable_flag exported is_default) =
     (clean_start name \<and> no_nl name \<and> no_nl (render_expression fmt val))"
| "py_tame fmt (Assign lhs val) =
     (clean_start (render_expression fmt lhs) \<and> no_nl (render_expression fmt lhs)
      \<and> no_nl (render_expression fmt val))"
| "py_tame fmt (FunctionDef name params body exported is_default) =
     (no_nl name \<and> list_all no_nl params \<and> list_all (py_tame fmt) body)"
| "py_tame fmt (ExportNames names source) =
     (list_all (\<lambda>(local, alias). no_nl local \<and> no_nl alias) names
      \<and> (case source of Some s \<Rightarrow> no_nl s | None \<Rightarrow> True))"
| "py_tame fmt (ExportDefault val) = no_nl (render_expression fmt val)"
| "py_tame fmt (Return val) =
     (case val of Some e \<Rightarrow> no_nl (render_expression fmt e) | None \<Rightarrow> True)"
| "py_tame fmt (IfStmt test body orelse) =
     (no_nl (render_expression fmt test) \<and> list_all (py_tame fmt) body
      \<and> list_all (py_tame fmt) orelse)"
| "py_tame fmt (While test body) =
     (no_nl (render_expression fmt test) \<and> list_all (py_tame fmt) body)"
| "py_tame fmt (For var iterator body) =
     (no_nl var \<and> no_nl (render_expression fmt iterator) \<and> list_all (py_tame fmt) body)"
| "py_tame fmt (Spawn call) = no_nl (render_expression fmt call)"
| "py_tame fmt (Expr e) =
     (clean_start (render_expression fmt e) \<and> no_nl (render_expression fmt e))"

subsection \<open>Lines of a stream\<close>

lemma split_lines_nonempty [simp]: "split_lines s \<noteq> []"
  by (induction s) (auto split: list.splits)

lemma split_lines_append_newline:
  "split_lines (a @ ch_newline # b) = split_lines a @ split_lines b"
proof (induction a)
  case Nil
  show ?case by simp
next
  case (Cons c a)
  obtain l ls where "split_lines a = l # ls" by (cases "split_lines a") auto
  with Cons show ?case by simp
qed

lemma split_lines_no_nl: "no_nl t \<Longrightarrow> split_lines t = [t]"
  by (induction t) (auto simp: no_nl_def)

lemma no_nl_simps [simp]:
  "no_nl []"
  "no_nl (c # cs) = (c \<noteq> ch_newline \<and> no_nl cs)"
  "no_nl (a @ b) = (no_nl a \<and> no_nl b)"
  by (auto simp: no_nl_def)

lemma leading_spaces_indent:
  "t = [] \<or> hd t \<noteq> CHR '' '' \<Longrightarrow> leading_spaces (replicate k CHR '' '' @ t) = k"
  by (cases t) (auto simp: leading_spaces_def takeWhile_append)

definition tidy :: "string \<Rightarrow> bool" where
  "tidy s = ((s = [] \<or> last s = ch_newline) \<and> lines_ok s)"

lemma tidy_Nil [simp]: "tidy []"
  by (simp add: tidy_def lines_ok_def leading_spaces_def)

lemma tidy_line:
  assumes "tidy s" and "no_nl t" and "t = [] \<or> hd t \<noteq> CHR '' ''"
  shows "tidy (s @ replicate (k * 4) CHR '' '' @ t @ [ch_newline])"
proof -
  let ?u = "replicate (k * 4) CHR '' '' @ t"
  have u: "no_nl ?u" using assms(2) by (auto simp: no_nl_def ch_newline_def)
  have lu: "4 dvd leading_spaces ?u" using assms(3) by (simp add: leading_spaces_indent)
  have l0: "4 dvd leading_spaces []" by (simp add: leading_spaces_def)
  have new: "split_lines (?u @ [ch_newline]) = [?u, []]"
    using split_lines_append_newline [of ?u "[]"] split_lines_no_nl [OF u] by simp
  show ?thesis
  proof (cases "s = []")
    case True
    with new lu l0 show ?thesis by (simp add: tidy_def lines_ok_def)
  next
    case False
    with assms(1) obtain s0 where s: "s = s0 @ [ch_newline]"
      by (metis append_butlast_last_id tidy_def)
    have "split_lines (s @ ?u @ [ch_newline]) = split_lines s0 @ [?u, []]"
      using split_lines_append_newline [of s0 "?u @ [ch_newline]"] new s by simp
    moreover have "split_lines s = split_lines s0 @ [[]]"
      using split_lines_append_newline [of s0 "[]"] s by simp
    ultimately show ?thesis
      using assms(1) lu l0 by (simp add: tidy_def lines_ok_def)
  qed
qed

definition line_text :: "string \<Rightarrow> bool" where
  "line_text t = (no_nl t \<and> (t = [] \<or> hd t \<noteq> CHR '' ''))"

definition tidy_visitor :: "py_visitor \<Rightarrow> bool" where
  "tidy_visitor v = tidy (em_stream (emitter v))"

lemma emit_tidy: "tidy_visitor v \<Longrightarrow> line_text t \<Longrightarrow> tidy_visitor (emit t v)"
  by (simp add: tidy_visitor_def line_text_def tidy_line)

lemma indent_tidy [simp]: "tidy_visitor (indent v) = tidy_visitor v"
  by (simp add: tidy_visitor_def)

lemma temp_tidy [simp]: "tidy_visitor (snd (temp p v)) = tidy_visitor v"
  by (simp add: tidy_visitor_def)

lemma string_of_nat_digits: "set (string_of_nat n) \<subseteq> set ''0123456789''"
proof (induction n rule: string_of_nat.induct)
  case (1 n)
  have d: "''0123456789'' ! k \<in> set ''0123456789''" if "k < 10" for k
    using that by (intro nth_mem) simp
  show ?case
  proof (cases "n < 10")
    case True
    then show ?thesis
      using d [of n] by (subst string_of_nat.simps) simp
  next
    case False
    with 1 have "set (string_of_nat (n div 10)) \<subseteq> set ''0123456789''" by simp
    with False d [of "n mod 10"] show ?thesis
      by (subst string_of_nat.simps) simp
  qed
qed

lemma no_nl_to_string [simp]: "no_nl (to_string i)"
  using string_of_nat_digits [of "nat i"] string_of_nat_digits [of "nat (- i)"]
  by (auto simp: to_string_def no_nl_def ch_newline_def)

lemma no_nl_join: "list_all no_nl xs \<Longrightarrow> no_nl sep \<Longrightarrow> no_nl (join xs sep)"
  by (induction xs sep rule: join.induct) simp_all

lemma no_nl_map_replace:
  "no_nl t \<Longrightarrow> no_nl (map (\<lambda>ch. if ch = CHR ''.'' \<or> ch = CHR ''-'' then CHR ''_'' else ch) t)"
  by (induction t) (auto simp: ch_newline_def)

lemma fold_emit_tidy:
  "list_all (\<lambda>(a, b). line_text (f a b)) xs \<Longrightarrow> tidy_visitor v \<Longrightarrow>
    tidy_visitor (fold (\<lambda>(a, b). emit (f a b)) xs v)"
  by (induction xs arbitrary: v) (auto simp: emit_tidy)

lemma nl_char [simp]: "(c = ch_newline) = (c = CHR 0x0A)"
  by (simp add: ch_newline_def)

lemma squote_char [simp]: "ch_squote = CHR 0x27"
  by (simp add: ch_squote_def)

lemma line_text_literal [simp]:
  "c \<noteq> CHR 0x0A \<Longrightarrow> c \<noteq> CHR '' '' \<Longrightarrow> line_text (c # t) = no_nl t"
  "line_text []"
  by (simp_all add: line_text_def)

lemma line_text_append:
  "clean_start a \<Longrightarrow> no_nl a \<Longrightarrow> no_nl b \<Longrightarrow> line_text (a @ b)"
  by (cases a) (simp_all add: line_text_def clean_start_def)

lemma export_bindings_tidy:
  "tidy_visitor v \<Longrightarrow> no_nl name \<Longrightarrow>
    tidy_visitor (emit_export_bindings name exported is_default v)"
  unfolding emit_export_bindings_def Let_def
  by (auto intro!: emit_tidy)

lemma visit_import_tidy:
  assumes "py_tame fmt (Import m al)" and "tidy_visitor v"
  shows "tidy_visitor (visit_import m al v)"
proof -
  let ?r = "\<lambda>ch. if ch = CHR ''.'' \<or> ch = CHR ''-'' then CHR ''_'' else ch"
  have r: "clean_start (map ?r t) \<and> no_nl (map ?r t)" if "clean_start t" "no_nl t" for t
    using that no_nl_map_replace [of t] by (cases t) (auto simp: clean_start_def)
  from assms(1) have "no_nl m" by simp
  moreover from assms(1) have "clean_start (case al of Some a \<Rightarrow> a | None \<Rightarrow> m)"
    "no_nl (case al of Some a \<Rightarrow> a | None \<Rightarrow> m)"
    by (auto split: option.splits)
  ultimately show ?thesis
    unfolding visit_import_def Let_def
    using assms(2) by (intro emit_tidy line_text_append) (auto dest: r)
qed

lemma visit_import_from_tidy:
  assumes "py_tame fmt (ImportFrom m names dn nn)" and "tidy_visitor v"
  shows "tidy_visitor (visit_import_from m names dn nn v)"
proof -
  obtain tn v1 where t: "temp ''import'' v = (tn, v1)" by (cases "temp ''import'' v")
  then have tn: "tn = ''__trif_import_'' @ to_string (temp_index v)" and v1: "tidy_visitor v1"
    using assms(2) temp_tidy [of "''import''" v] by (auto simp: temp_def)
  have n: "no_nl tn" by (simp add: tn)
  from assms(1) have "list_all (\<lambda>(source, a). clean_start a \<and> no_nl a \<and> no_nl source) names"
    by simp
  then have names: "list_all (\<lambda>(source, a). line_text
      (a @ '' = runtime.extract_export('' @ tn @ '', '' @ [ch_squote] @ source @ [ch_squote] @ '')''))
      names"
    by (rule list.pred_mono_strong) (auto simp: n intro!: line_text_append)
  from assms(1) v1 n show ?thesis
    unfolding visit_import_from_def t Let_def prod.case
    by (intro fold_emit_tidy [OF names])
       (auto split: option.splits intro!: emit_tidy line_text_append simp: tn)
qed

lemma visit_export_names_tidy:
  assumes "py_tame fmt (ExportNames names src)" and "tidy_visitor v"
  shows "tidy_visitor (visit_export_names names src v)"
proof (cases src)
  case None
  from assms(1) have "list_all (\<lambda>(local, a). no_nl local \<and> no_nl a) names"
    by simp
  then have "list_all (\<lambda>(local, a). line_text
      (''__trif_exports__['' @ [ch_squote] @ a @ [ch_squote] @ ''] = '' @ local)) names"
    by (rule list.pred_mono_strong) auto
  from fold_emit_tidy [OF this assms(2)] None show ?thesis
    by (simp add: visit_export_names_def)
next
  case (Some s)
  obtain tn v1 where t: "temp ''export'' v = (tn, v1)" by (cases "temp ''export'' v")
  then have tn: "tn = ''__trif_export_'' @ to_string (temp_index v)" and v1: "tidy_visitor v1"
    using assms(2) temp_tidy [of "''export''" v] by (auto simp: temp_def)
  from assms(1) have "list_all (\<lambda>(local, a). no_nl local \<and> no_nl a) names"
    by simp
  then have names: "list_all (\<lambda>(source_name, a). line_text
      (''__trif_exports__['' @ [ch_squote] @ a @ [ch_squote] @ ''] = runtime.extract_export(''
        @ tn @ '', '' @ [ch_squote] @ source_name @ [ch_squote] @ '')'')) names"
    by (rule list.pred_mono_strong) (auto simp: tn)
  from assms(1) Some v1 show ?thesis
    unfolding visit_export_names_def t Let_def prod.case Some option.case
    by (intro fold_emit_tidy [OF names]) (auto intro!: emit_tidy simp: tn)
qed

lemma simple_visitors_tidy:
  "py_tame fmt (LetStmt name val mf ex df) \<Longrightarrow> tidy_visitor v \<Longrightarrow>
     tidy_visitor (visit_let fmt name val mf ex df v)"
  "py_tame fmt (Assign lhs val) \<Longrightarrow> tidy_visitor v \<Longrightarrow> tidy_visitor (visit_assign fmt lhs val v)"
  "py_tame fmt (Return r) \<Longrightarrow> tidy_visitor v \<Longrightarrow> tidy_visitor (visit_return fmt r v)"
  "py_tame fmt (ExportDefault val) \<Longrightarrow> tidy_visitor v \<Longrightarrow>
     tidy_visitor (visit_export_default fmt val v)"
  "py_tame fmt (Spawn call) \<Longrightarrow> tidy_visitor v \<Longrightarrow> tidy_visitor (visit_spawn fmt call v)"
  "py_tame fmt (Expr e) \<Longrightarrow> tidy_visitor v \<Longrightarrow> tidy_visitor (emit (render_expression fmt e) v)"
  unfolding visit_let_def visit_assign_def visit_return_def visit_export_default_def
    visit_spawn_def Let_def
  by (auto split: option.splits
        intro!: export_bindings_tidy emit_tidy line_text_append
        simp: line_text_def clean_start_def)

definition keeps_tidy :: "error + py_visitor \<Rightarrow> bool" where
  "keeps_tidy r = (case r of Inr v \<Rightarrow> tidy_visitor v | Inl e \<Rightarrow> True)"

lemma keeps_tidy_simps [simp]:
  "keeps_tidy (Inr v) = tidy_visitor v"
  "keeps_tidy (Inl e)"
  by (simp_all add: keeps_tidy_def)

lemma keeps_tidy_bind:
  "keeps_tidy m \<Longrightarrow> (\<And>x. tidy_visitor x \<Longrightarrow> keeps_tidy (f x)) \<Longrightarrow> keeps_tidy (bind m f)"
  by (cases m) simp_all

lemma keeps_tidy_dedent: "tidy_visitor v \<Longrightarrow> keeps_tidy (dedent v)"
  by (cases "dedent v") (auto simp: tidy_visitor_def dest!: dedent_Inr)

definition visits_tidy :: "('d \<Rightarrow> string) \<Rightarrow> 'd node list \<Rightarrow> bool" where
  "visits_tidy fmt ns = (\<forall>n \<in> set ns. \<forall>v. tidy_visitor v \<longrightarrow> keeps_tidy (visit fmt n v))"

lemma visit_all_tidy:
  "visits_tidy fmt ns \<Longrightarrow> tidy_visitor v \<Longrightarrow> keeps_tidy (visit_all fmt ns v)"
proof (induction ns arbitrary: v)
  case Nil
  then show ?case by simp
next
  case (Cons n ns)
  from Cons.prems have n: "keeps_tidy (visit fmt n v)" and ns: "visits_tidy fmt ns"
    by (simp_all add: visits_tidy_def)
  show ?case
    unfolding visit_all.simps
    by (rule keeps_tidy_bind [OF n]) (rule Cons.IH [OF ns])
qed

lemma block_tidy:
  "visits_tidy fmt ns \<Longrightarrow> tidy_visitor u \<Longrightarrow> line_text t \<Longrightarrow>
    keeps_tidy (visit_all fmt ns (indent (emit t u)))"
  by (rule visit_all_tidy) (simp_all add: emit_tidy)

lemma visit_tidy: "py_tame fmt n \<Longrightarrow> tidy_visitor v \<Longrightarrow> keeps_tidy (visit fmt n v)"
proof (induction n arbitrary: v)
  case (FunctionDef name params body exported is_default)
  then have b: "visits_tidy fmt body"
    by (simp add: list_all_iff visits_tidy_def)
  from FunctionDef.prems have h: "line_text (''def '' @ name @ ''('' @ join params '', '' @ ''):'')"
    and n: "no_nl name"
    by (simp_all add: no_nl_join)
  define v1 where "v1 = indent (emit (''def '' @ name @ ''('' @ join params '', '' @ ''):'') v)"
  have t1: "tidy_visitor v1"
    unfolding v1_def indent_tidy by (rule emit_tidy [OF FunctionDef.prems(2) h])
  have blk: "keeps_tidy (visit_all fmt body v1)"
    by (rule visit_all_tidy [OF b t1])
  have inner: "keeps_tidy (if body = [] then Inr (emit ''return None'' v1)
            else bind (visit_all fmt body v1) (\<lambda>v2.
                   if body = [] \<or> \<not> is_Return (last body) then Inr (emit ''return None'' v2)
                   else Inr v2))"
  proof (cases "body = []")
    case True
    with t1 show ?thesis by (simp add: emit_tidy)
  next
    case False
    have "keeps_tidy (bind (visit_all fmt body v1) (\<lambda>v2.
                   if body = [] \<or> \<not> is_Return (last body) then Inr (emit ''return None'' v2)
                   else Inr v2))"
      by (rule keeps_tidy_bind [OF blk]) (simp add: emit_tidy)
    with False show ?thesis by simp
  qed
  show ?case
    unfolding visit.simps Let_def v1_def [symmetric]
    apply (rule keeps_tidy_bind [OF inner])
    apply (rule keeps_tidy_bind [OF keeps_tidy_dedent])
     apply assumption
    apply (simp add: emit_tidy export_bindings_tidy n)
    done
next
  case (IfStmt test body orelse)
  then have b: "visits_tidy fmt body" and c: "visits_tidy fmt orelse"
    by (simp_all add: list_all_iff visits_tidy_def)
  from IfStmt.prems have h: "line_text (''if '' @ render_expression fmt test @ '':'')"
    by simp
  show ?case
    unfolding visit.simps Let_def
    apply (rule keeps_tidy_bind [OF block_tidy [OF b IfStmt.prems(2) h]])
    apply (rule keeps_tidy_bind [OF keeps_tidy_dedent])
     apply assumption
    apply (auto intro!: keeps_tidy_bind [OF block_tidy [OF c]] keeps_tidy_dedent)
    done
next
  case (While test body)
  then have b: "visits_tidy fmt body"
    by (simp add: list_all_iff visits_tidy_def)
  from While.prems have h: "line_text (''while '' @ render_expression fmt test @ '':'')"
    by simp
  show ?case
    unfolding visit.simps Let_def
    by (rule keeps_tidy_bind [OF block_tidy [OF b While.prems(2) h]]) (rule keeps_tidy_dedent)
next
  case (For var iterator body)
  then have b: "visits_tidy fmt body"
    by (simp add: list_all_iff visits_tidy_def)
  from For.prems have h:
    "line_text (''for '' @ var @ '' in '' @ render_expression fmt iterator @ '':'')"
    by simp
  show ?case
    unfolding visit.simps Let_def
    by (rule keeps_tidy_bind [OF block_tidy [OF b For.prems(2) h]]) (rule keeps_tidy_dedent)
next
  case (Import m al)
  then show ?case by (simp add: visit_import_tidy)
next
  case (ImportFrom m names dn nn)
  then show ?case by (simp only: visit.simps keeps_tidy_simps visit_import_from_tidy)
next
  case (ExportNames names src)
  then show ?case by (simp only: visit.simps keeps_tidy_simps visit_export_names_tidy)
next
  case (LetStmt name val mf ex df)
  then show ?case by (simp only: visit.simps keeps_tidy_simps simple_visitors_tidy)
next
  case (Assign lhs val)
  then show ?case by (simp only: visit.simps keeps_tidy_simps simple_visitors_tidy)
next
  case (Return r)
  then show ?case by (simp only: visit.simps keeps_tidy_simps simple_visitors_tidy)
next
  case (ExportDefault val)
  then show ?case by (simp only: visit.simps keeps_tidy_simps simple_visitors_tidy)
next
  case (Spawn call)
  then show ?case by (simp only: visit.simps keeps_tidy_simps simple_visitors_tidy)
next
  case (Expr e)
  then show ?case by (simp only: visit.simps keeps_tidy_simps simple_visitors_tidy)
next
  case (Module body)
  show ?case by simp
qed

lemma prelude_tidy: "keeps_tidy (py_prelude new_py_visitor)"
proof -
  have "tidy_visitor new_py_visitor"
    by (simp add: tidy_visitor_def new_py_visitor_def new_emitter_def)
  then show ?thesis
    unfolding py_prelude_def Let_def
    by (intro keeps_tidy_bind keeps_tidy_dedent emit_tidy indent_tidy [THEN iffD2]
          keeps_tidy_simps(1) [THEN iffD2]) simp_all
qed

lemma epilogue_tidy: "tidy_visitor v \<Longrightarrow> keeps_tidy (py_epilogue v)"
  unfolding py_epilogue_def Let_def
  by (intro keeps_tidy_dedent emit_tidy indent_tidy [THEN iffD2]) simp_all

lemma python_generate_tidy:
  assumes "list_all (py_tame fmt) body" and "python_generate fmt body = Inr out"
  shows "lines_ok out"
proof -
  from assms(2) obtain v1 v2 v3 where p: "py_prelude new_py_visitor = Inr v1"
    and b: "visit_all fmt body v1 = Inr v2" and e: "py_epilogue v2 = Inr v3"
    and out: "out = em_stream (emitter v3)"
    by (auto simp: python_generate_def py_visitor_generate_def bind_eq_Inr)
  from prelude_tidy p have t1: "tidy_visitor v1" by simp
  from assms(1) have "visits_tidy fmt body"
    by (simp add: list_all_iff visits_tidy_def visit_tidy)
  from visit_all_tidy [OF this t1] b have "tidy_visitor v2" by simp
  from epilogue_tidy [OF this] e have "tidy_visitor v3" by simp
  then show ?thesis
    by (simp add: out tidy_visitor_def tidy_def)
qed


section \<open>Indentation of the Python output\<close>

text \<open>
  C9, amended. For every body that \<open>parse\<close> returns, the Python generator returns a text:
  it throws neither \<open>Indentation underflow\<close> nor anything else. Every line of that text
  begins with a number of spaces that is a multiple of four provided the statements
  are \<open>py_tame\<close>: no name, module string or rendered expression that the generator writes
  holds a newline, and those it writes at the start of a line are not empty and do not
  begin with a space.
\<close>

theorem python_output_indented:
  assumes "parse stod ts = Inr body"
  shows "\<exists>out. python_generate fmt body = Inr out \<and>
           (list_all (py_tame fmt) body \<longrightarrow> lines_ok out)"
proof -
  from assms have "list_all no_module body" by (rule parse_no_module)
  then obtain out where out: "python_generate fmt body = Inr out"
    using python_generate_returns by blast
  then have "lines_ok out" if "list_all (py_tame fmt) body"
    using that by (rule python_generate_tidy [rotated])
  with out show ?thesis by blast
qed

theorem python_output_indented_witness:
  "parse (\<lambda>s. Some s)
     [mk_token ''IF'' ''if'' 1 1, mk_token ''NAME'' ''x'' 1 4, mk_token ''LBRACE'' ''{'' 1 6,
      mk_token ''NAME'' ''y'' 1 8, mk_token ''RBRACE'' ''}'' 1 10, mk_token ''EOF'' [] 1 11]
     = Inr [IfStmt (Name ''x'') [Expr (Name ''y'')] []] \<and>
   list_all (py_tame (\<lambda>d. d)) [IfStmt (Name ''x'') [Expr (Name ''y'')] [] :: string node] \<and>
   (\<exists>out. python_generate (\<lambda>d. d) [IfStmt (Name ''x'') [Expr (Name ''y'')] [] :: string node]
            = Inr out \<and> lines_ok out)"
proof -
  have p: "parse (\<lambda>s. Some s)
     [mk_token ''IF'' ''if'' 1 1, mk_token ''NAME'' ''x'' 1 4, mk_token ''LBRACE'' ''{'' 1 6,
      mk_token ''NAME'' ''y'' 1 8, mk_token ''RBRACE'' ''}'' 1 10, mk_token ''EOF'' [] 1 11]
     = Inr [IfStmt (Name ''x'') [Expr (Name ''y'')] []]"
    by (simp add: parser_simps)
  have t: "list_all (py_tame (\<lambda>d. d)) [IfStmt (Name ''x'') [Expr (Name ''y'')] [] :: string node]"
    by (simp add: clean_start_def)
  from python_output_indented [OF p, of "\<lambda>d. d"] t
  have "\<exists>out. python_generate (\<lambda>d. d) [IfStmt (Name ''x'') [Expr (Name ''y'')] [] :: string node]
            = Inr out \<and> lines_ok out"
    by blast
  with p t show ?thesis by blast
qed

lemma line_in_stream:
  assumes "s = [] \<or> last s = ch_newline" and "no_nl l"
  shows "l \<in> set (split_lines (s @ l @ ch_newline # b))"
proof -
  have 1: "split_lines (s @ l @ ch_newline # b) = split_lines (s @ l) @ split_lines b"
    using split_lines_append_newline [of "s @ l" b] by simp
  have "l \<in> set (split_lines (s @ l))"
  proof (cases "s = []")
    case True
    with assms(2) show ?thesis by (simp add: split_lines_no_nl)
  next
    case False
    with assms(1) obtain s0 where s: "s = s0 @ [ch_newline]"
      by (metis append_butlast_last_id)
    have "split_lines (s @ l) = split_lines s0 @ split_lines l"
      using split_lines_append_newline [of s0 l] by (simp add: s)
    with assms(2) show ?thesis by (simp add: split_lines_no_nl)
  qed
  with 1 show ?thesis by simp
qed

lemma misaligned_line:
  assumes "l \<in> set (split_lines out)" and "\<not> 4 dvd leading_spaces l"
  shows "\<not> lines_ok out"
  using assms by (auto simp: lines_ok_def list_all_iff)

lemma epilogue_stream:
  "py_epilogue v = Inr v' \<Longrightarrow> \<exists>b. em_stream (emitter v') = em_stream (emitter v) @ b"
  unfolding py_epilogue_def Let_def
  by (drule dedent_Inr) simp

text \<open>
  The output for a module that is one \<open>import\<close> of a module string, with no alias: the
  prelude, the line of the import at level 0, the epilogue.
\<close>

lemma import_output:
  "\<exists>s b. (s = [] \<or> last s = ch_newline) \<and>
     python_generate fmt [Import m None] =
       Inr (s @ (map (\<lambda>ch. if ch = CHR ''.'' \<or> ch = CHR ''-'' then CHR ''_'' else ch) m
                  @ '' = runtime.import_module('' @ [ch_squote] @ m @ [ch_squote] @ '')'')
              @ ch_newline # b)"
proof -
  let ?l = "map (\<lambda>ch. if ch = CHR ''.'' \<or> ch = CHR ''-'' then CHR ''_'' else ch) m
              @ '' = runtime.import_module('' @ [ch_squote] @ m @ [ch_squote] @ '')''"
  obtain out where out: "python_generate fmt [Import m None] = Inr out"
    using python_generate_returns [of "[Import m None]" fmt] by auto
  then obtain v1 v3 where v1: "py_prelude new_py_visitor = Inr v1"
    and v3: "py_epilogue (emit ?l v1) = Inr v3" and o: "out = em_stream (emitter v3)"
    by (auto simp: python_generate_def py_visitor_generate_def bind_eq_Inr visit_import_def)
  from v1 have i1: "em_indent (emitter v1) = 0"
    by (auto simp: py_prelude_def Let_def new_py_visitor_def new_emitter_def dedent_def
        em_dedent_def indent_def emit_def em_emit_def em_do_indent_def)
  from prelude_tidy v1 have "tidy_visitor v1" by simp
  then have e1: "em_stream (emitter v1) = [] \<or> last (em_stream (emitter v1)) = ch_newline"
    by (simp add: tidy_visitor_def tidy_def)
  from epilogue_stream [OF v3] i1 obtain b where
    "out = em_stream (emitter v1) @ ?l @ ch_newline # b"
    by (auto simp: o)
  with e1 out show ?thesis by blast
qed

text \<open>
  C9 as stated fails on the program \<open>import ""\<close>: the generator writes the module string
  as the target of the assignment, so the line is \<open> = runtime.import_module('')\<close>, which
  begins with one space. It fails as well on \<open>import "a\n b"\<close>, whose module string holds
  a newline and is written as it is: the second of its three lines begins with one
  space.
\<close>

theorem import_empty_counterexample:
  "bind (tokenize (''import '' @ [ch_dquote, ch_dquote])) (parse (\<lambda>s. Some s))
     = Inr [Import [] None :: string node] \<and>
   (case python_generate (\<lambda>d. d) [Import [] None :: string node] of
      Inr out \<Rightarrow>
        ('' = runtime.import_module('' @ [ch_squote, ch_squote] @ '')'') \<in> set (split_lines out)
        \<and> \<not> lines_ok out
    | Inl e \<Rightarrow> False) \<and>
   bind (tokenize (''import '' @ [ch_dquote] @ ''a'' @ [ch_backslash] @ ''n b'' @ [ch_dquote]))
     (parse (\<lambda>s. Some s))
     = Inr [Import (''a'' @ [ch_newline] @ '' b'') None :: string node] \<and>
   (case python_generate (\<lambda>d. d) [Import (''a'' @ [ch_newline] @ '' b'') None :: string node] of
      Inr out \<Rightarrow>
        ('' b = runtime.import_module('' @ [ch_squote] @ ''a'') \<in> set (split_lines out)
        \<and> \<not> lines_ok out
    | Inl e \<Rightarrow> False)"
proof -
  let ?l1 = "'' = runtime.import_module('' @ [ch_squote, ch_squote] @ '')''"
  let ?l2 = "'' b = runtime.import_module('' @ [ch_squote] @ ''a''"
  have t1: "tokenize (''import '' @ [ch_dquote, ch_dquote])
    = Inr [mk_token ''IMPORT'' ''import'' 1 1, mk_token ''STRING'' [] 1 8, mk_token ''EOF'' [] 1 10]"
    by code_simp
  have p1: "parse (\<lambda>s. Some s)
      [mk_token ''IMPORT'' ''import'' 1 1, mk_token ''STRING'' [] 1 8, mk_token ''EOF'' [] 1 10]
    = Inr [Import [] None :: string node]"
    by (simp add: parser_simps)
  have t2: "tokenize (''import '' @ [ch_dquote] @ ''a'' @ [ch_backslash] @ ''n b'' @ [ch_dquote])
    = Inr [mk_token ''IMPORT'' ''import'' 1 1, mk_token ''STRING'' (''a'' @ [ch_newline] @ '' b'') 1 8,
           mk_token ''EOF'' [] 1 15]"
    by code_simp
  have p2: "parse (\<lambda>s. Some s)
      [mk_token ''IMPORT'' ''import'' 1 1, mk_token ''STRING'' (''a'' @ [ch_newline] @ '' b'') 1 8,
       mk_token ''EOF'' [] 1 15]
    = Inr [Import (''a'' @ [ch_newline] @ '' b'') None :: string node]"
    by (simp add: parser_simps)
  obtain s1 b1 where e1: "s1 = [] \<or> last s1 = ch_newline"
    and o1: "python_generate (\<lambda>d. d) [Import [] None :: string node] = Inr (s1 @ ?l1 @ ch_newline # b1)"
    using import_output [of "\<lambda>d :: string. d" "[]"] by auto
  have m1: "?l1 \<in> set (split_lines (s1 @ ?l1 @ ch_newline # b1))"
    by (rule line_in_stream [OF e1]) simp
  have n1: "\<not> lines_ok (s1 @ ?l1 @ ch_newline # b1)"
    by (rule misaligned_line [OF m1]) (simp add: leading_spaces_def)
  obtain s2 b2 where e2: "s2 = [] \<or> last s2 = ch_newline"
    and o2: "python_generate (\<lambda>d. d) [Import (''a'' @ [ch_newline] @ '' b'') None :: string node]
               = Inr ((s2 @ ''a'' @ [ch_newline]) @ ?l2 @ ch_newline # ('' b'' @ [ch_squote] @ '')''
                        @ ch_newline # b2))"
    using import_output [of "\<lambda>d :: string. d" "''a'' @ [ch_newline] @ '' b''"]
    by (auto simp: ch_newline_def)
  have m2: "?l2 \<in> set (split_lines ((s2 @ ''a'' @ [ch_newline]) @ ?l2 @ ch_newline # ('' b''
               @ [ch_squote] @ '')'' @ ch_newline # b2)))"
    by (rule line_in_stream) simp_all
  have n2: "\<not> lines_ok ((s2 @ ''a'' @ [ch_newline]) @ ?l2 @ ch_newline # ('' b''
               @ [ch_squote] @ '')'' @ ch_newline # b2))"
    by (rule misaligned_line [OF m2]) (simp add: leading_spaces_def)
  from t1 p1 have c1: "bind (tokenize (''import '' @ [ch_dquote, ch_dquote])) (parse (\<lambda>s. Some s))
     = Inr [Import [] None :: string node]"
    by simp
  from t2 p2 have c2:
    "bind (tokenize (''import '' @ [ch_dquote] @ ''a'' @ [ch_backslash] @ ''n b'' @ [ch_dquote]))
       (parse (\<lambda>s. Some s))
     = Inr [Import (''a'' @ [ch_newline] @ '' b'') None :: string node]"
    by simp
  from m1 n1 have g1: "(case python_generate (\<lambda>d. d) [Import [] None :: string node] of
      Inr out \<Rightarrow> ?l1 \<in> set (split_lines out) \<and> \<not> lines_ok out
    | Inl e \<Rightarrow> False)"
    unfolding o1 by simp
  from m2 n2 have g2:
    "(case python_generate (\<lambda>d. d) [Import (''a'' @ [ch_newline] @ '' b'') None :: string node] of
      Inr out \<Rightarrow> ?l2 \<in> set (split_lines out) \<and> \<not> lines_ok out
    | Inl e \<Rightarrow> False)"
    unfolding o2 by simp
  from c1 g1 c2 g2 show ?thesis by blast
qed


end
